theory Spec2Isabelle
  imports Complex_Main "HOL-Library.AList"
begin

section \<open>Widgets and the knob/slider binding\<close>

text \<open>
  The program binds coarse dials (range 0..100) and a fine slider (range 0..1000) to
  the same parameter. Both are Qt range widgets (\<open>QDial\<close>, \<open>QSlider\<close>); the part of
  their behaviour the program relies on is modelled here: a widget holds an integer
  value inside \<open>[minimum, maximum]\<close>, \<open>setValue\<close> bounds its argument to the range,
  does nothing when the bounded value is the current one, and otherwise stores it and
  emits \<open>valueChanged\<close> unless signals are blocked on the widget.
\<close>

record widget =
  wvalue :: int
  wminimum :: int
  wmaximum :: int
  signalsBlocked :: bool

text \<open>
  A dial of the edit page, with the binding key that its closures capture and the text
  of its LCD label. Every call of \<open>_show_edit_preset\<close> creates twelve new dials and
  connects them; the overlay of an earlier call is only closed, never deleted, and
  nothing is ever disconnected, so the dials of all earlier calls stay connected to the
  long-lived sliders. The state therefore holds the list of all dials created so far, in
  the order of their creation; a dial is identified by its index in that list.
\<close>

record dial =
  dkey :: string
  dwidget :: widget
  dlcd :: string

text \<open>
  A widget is reached through one of the module globals \<open>knob_widget_map\<close> and
  \<open>slider_widget_map\<close>, or it is a dial of the edit page.
\<close>

datatype wref = KnobMap string | SliderMap string | EditDial nat

record ui =
  knob_widget_map :: "string \<rightharpoonup> widget"
  slider_widget_map :: "string \<rightharpoonup> widget"
  slider_label_map :: "string \<rightharpoonup> string"
  dials :: "dial list"
  preset_values :: "string \<rightharpoonup> rat"
  writes :: "wref list"

text \<open>
  The field \<open>writes\<close> is instrumentation: each time a handler writes a widget (always
  by \<open>blockSignals(True)\<close>, \<open>setValue\<close>, \<open>blockSignals(False)\<close>), the widget is
  appended to it, so that the writes caused by one event can be counted.

  The exceptions that the modelled code can raise, and the result of a computation:
  a value, an exception, or no result because the nesting bound of the dispatcher below
  was reached (or because a reference names no widget, which no call of the program
  does).
\<close>

datatype py_error = JSONDecodeError | KeyError | OSError | OverflowError

datatype 'a res = Result 'a | Raised py_error | NoResult

definition and_then :: "'a res \<Rightarrow> ('a \<Rightarrow> 'b res) \<Rightarrow> 'b res" where
  "and_then x f = (case x of Result a \<Rightarrow> f a | Raised e \<Rightarrow> Raised e | NoResult \<Rightarrow> NoResult)"

fun widget_at :: "wref \<Rightarrow> ui \<Rightarrow> widget option" where
  "widget_at (KnobMap n) s = knob_widget_map s n"
| "widget_at (SliderMap n) s = slider_widget_map s n"
| "widget_at (EditDial i) s = (if i < length (dials s) then Some (dwidget (dials s ! i)) else None)"

fun put_widget :: "wref \<Rightarrow> widget \<Rightarrow> ui \<Rightarrow> ui" where
  "put_widget (KnobMap n) w s = s\<lparr>knob_widget_map := (knob_widget_map s)(n \<mapsto> w)\<rparr>"
| "put_widget (SliderMap n) w s = s\<lparr>slider_widget_map := (slider_widget_map s)(n \<mapsto> w)\<rparr>"
| "put_widget (EditDial i) w s = s\<lparr>dials := (dials s)[i := (dials s ! i)\<lparr>dwidget := w\<rparr>]\<rparr>"

definition blockSignals :: "wref \<Rightarrow> bool \<Rightarrow> ui \<Rightarrow> ui" where
  "blockSignals r b s =
     (case widget_at r s of
        None \<Rightarrow> s
      | Some w \<Rightarrow> put_widget r (w\<lparr>signalsBlocked := b\<rparr>) s)"

definition bound :: "widget \<Rightarrow> int \<Rightarrow> int" where
  "bound w v = max (wminimum w) (min (wmaximum w) v)"

text \<open>
  \<open>setValue\<close> takes a C \<open>int\<close>: PyQt raises \<open>OverflowError\<close> for a Python integer
  outside that range, before the widget is touched.
\<close>

definition c_int :: "int \<Rightarrow> bool" where
  "c_int v \<longleftrightarrow> - 2147483648 \<le> v \<and> v \<le> 2147483647"

subsection \<open>Numbers and the text shown on the labels\<close>

definition digit :: "nat \<Rightarrow> char" where
  "digit n = ''0123456789'' ! n"

fun show_nat :: "nat \<Rightarrow> string" where
  "show_nat n =
     (if n < 10 then [digit n]
      else show_nat (n div 10) @ [digit (n mod 10)])"

declare show_nat.simps [simp del]

definition fmt02 :: "int \<Rightarrow> string" where
  \<comment> \<open>the format \<open>f"{value:02}"\<close> of an integer\<close>
  "fmt02 v =
     (if v < 0 then ''-'' @ show_nat (nat (- v))
      else if v < 10 then ''0'' @ show_nat (nat v)
      else show_nat (nat v))"

definition fmt_tenths :: "int \<Rightarrow> string" where
  \<comment> \<open>the format \<open>f"{v / 10:.1f}"\<close> of a slider value\<close>
  "fmt_tenths v =
     (if v < 0 then ''-'' @ show_nat (nat (- v) div 10) @ ''.'' @ show_nat (nat (- v) mod 10)
      else show_nat (nat v div 10) @ ''.'' @ show_nat (nat v mod 10))"

definition int_of_rat :: "rat \<Rightarrow> int" where
  \<comment> \<open>\<open>int(x)\<close>: truncation towards zero\<close>
  "int_of_rat q = (if 0 \<le> q then \<lfloor>q\<rfloor> else \<lceil>q\<rceil>)"

definition py_round :: "rat \<Rightarrow> int" where
  \<comment> \<open>\<open>round(x)\<close>: to the nearest integer, ties to the even one\<close>
  "py_round q =
     (let f = \<lfloor>q\<rfloor>; d = q - of_int f in
      if d < 1 / 2 then f
      else if 1 / 2 < d then f + 1
      else if even f then f else f + 1)"

definition int_of_tenth :: "int \<Rightarrow> int" where
  \<comment> \<open>\<open>int(sv / 10)\<close>: the quotient truncated towards zero\<close>
  "int_of_tenth sv = (if 0 \<le> sv then sv div 10 else - ((- sv) div 10))"

subsection \<open>The synchronisation handlers\<close>

text \<open>
  Each handler is written over the procedure that sets a widget's value, so that the
  event dispatcher below can pass itself in: a handler that writes a widget re-enters
  the dispatcher exactly as the program re-enters Qt.
\<close>

type_synonym setter = "wref \<Rightarrow> int \<Rightarrow> ui \<Rightarrow> ui res"

definition set_blocked :: "setter \<Rightarrow> wref \<Rightarrow> int \<Rightarrow> ui \<Rightarrow> ui res" where
  \<comment> \<open>\<open>w.blockSignals(True); w.setValue(v); w.blockSignals(False)\<close>\<close>
  "set_blocked setv r v s =
     and_then (setv r v (blockSignals r True (s\<lparr>writes := writes s @ [r]\<rparr>)))
       (\<lambda>s1. Result (blockSignals r False s1))"

definition sync_controls :: "setter \<Rightarrow> string \<Rightarrow> int \<Rightarrow> string \<Rightarrow> ui \<Rightarrow> ui res" where
  "sync_controls setv name v source s =
     (if source = ''slider'' then
        (case knob_widget_map s name of
           None \<Rightarrow> Result s
         | Some knob \<Rightarrow>
             if wvalue knob \<noteq> v div 10
             then set_blocked setv (KnobMap name) (v div 10) s
             else Result s)
      else if source = ''knob'' then
        (case slider_widget_map s name of
           None \<Rightarrow> Result s
         | Some slider \<Rightarrow>
             if wvalue slider \<noteq> v * 10
             then and_then (set_blocked setv (SliderMap name) (v * 10) s)
                    (\<lambda>s1. case slider_label_map s1 name of
                            None \<Rightarrow> Result s1
                          | Some label \<Rightarrow>
                              Result (s1\<lparr>slider_label_map := (slider_label_map s1)(name \<mapsto> fmt02 v)\<rparr>))
             else Result s)
      else Result s)"

text \<open>
  The closures of the edit page. \<open>knob_to_slider\<close> captures the slider found for the
  key and the key; \<open>slider_to_knob\<close> captures the dial it was created for and the key.
\<close>

definition knob_to_slider :: "setter \<Rightarrow> string \<Rightarrow> int \<Rightarrow> ui \<Rightarrow> ui res" where
  "knob_to_slider setv key kv s =
     (let sv = kv * 10 in
      and_then
        (case slider_widget_map s key of
           None \<Rightarrow> NoResult
         | Some sl \<Rightarrow> if wvalue sl \<noteq> sv then set_blocked setv (SliderMap key) sv s else Result s)
        (\<lambda>s1. Result (s1\<lparr>preset_values := (preset_values s1)(key \<mapsto> of_int kv)\<rparr>)))"

definition slider_to_knob :: "setter \<Rightarrow> nat \<Rightarrow> int \<Rightarrow> ui \<Rightarrow> ui res" where
  "slider_to_knob setv i sv s =
     (let kv = int_of_tenth sv in
      and_then
        (case widget_at (EditDial i) s of
           None \<Rightarrow> NoResult
         | Some d \<Rightarrow> if wvalue d \<noteq> kv then set_blocked setv (EditDial i) kv s else Result s)
        (\<lambda>s1. Result (s1\<lparr>preset_values := (preset_values s1)(dkey (dials s ! i) \<mapsto> of_int kv)\<rparr>)))"

subsection \<open>Signal dispatch\<close>

text \<open>
  The dials whose \<open>slider_to_knob\<close> closure is connected to the slider of a key: all
  dials ever created with that key, in the order of their creation, which is the order
  of the connections.
\<close>

definition bound_dials :: "string \<Rightarrow> ui \<Rightarrow> nat list" where
  "bound_dials name s = filter (\<lambda>i. dkey (dials s ! i) = name) [0..<length (dials s)]"

fun run_slider_to_knob :: "setter \<Rightarrow> nat list \<Rightarrow> int \<Rightarrow> ui \<Rightarrow> ui res" where
  "run_slider_to_knob setv [] v s = Result s"
| "run_slider_to_knob setv (i # js) v s =
     and_then (slider_to_knob setv i v s) (run_slider_to_knob setv js v)"


fun valueChanged :: "setter \<Rightarrow> wref \<Rightarrow> int \<Rightarrow> ui \<Rightarrow> ui res" where
  "valueChanged setv (SliderMap name) v s =
     (let s1 = (case slider_label_map s name of
                  None \<Rightarrow> s
                | Some l \<Rightarrow> s\<lparr>slider_label_map := (slider_label_map s)(name \<mapsto> fmt_tenths v)\<rparr>)
      in and_then (sync_controls setv name v ''slider'' s1)
           (\<lambda>s2. run_slider_to_knob setv (bound_dials name s2) v s2))"
| "valueChanged setv (EditDial i) v s =
     and_then
       (case slider_widget_map s (dkey (dials s ! i)) of
          None \<Rightarrow> Result s
        | Some sl \<Rightarrow> knob_to_slider setv (dkey (dials s ! i)) v s)
       (\<lambda>s1. Result (s1\<lparr>dials := (dials s1)[i := (dials s1 ! i)\<lparr>dlcd := fmt02 v\<rparr>]\<rparr>))"
| "valueChanged setv (KnobMap name) v s = Result s"

text \<open>
  \<open>setValue\<close> with the dispatch it triggers. The first argument bounds the nesting
  of handler calls.
\<close>

primrec setValue :: "nat \<Rightarrow> wref \<Rightarrow> int \<Rightarrow> ui \<Rightarrow> ui res" where
  "setValue 0 = (\<lambda>r v s. NoResult)"
| "setValue (Suc n) = (\<lambda>r v s.
     if \<not> c_int v then Raised OverflowError
     else
       case widget_at r s of
         None \<Rightarrow> NoResult
       | Some w \<Rightarrow>
           let v' = bound w v in
           if wvalue w = v' then Result s
           else
             let s1 = put_widget r (w\<lparr>wvalue := v'\<rparr>) s in
             if signalsBlocked w then Result s1 else valueChanged (setValue n) r v' s1)"


subsection \<open>Opening the edit page\<close>

text \<open>
  \<open>_show_edit_preset\<close>, as far as the widgets are concerned. It first sets every
  slider of the main page from \<open>self.preset_values\<close> with signals blocked, then creates
  one dial per name of its list \<open>names\<close> (range 0..100, value \<open>int(round(init))\<close>,
  set before anything is connected to the dial) and binds it, and finally sets every
  new dial once more from \<open>self.preset_values\<close> with signals blocked. The key of a dial
  is its name, except that the dial named \<open>MIX\<close> has the key \<open>WET/DRY\<close>; all names of
  the program are in upper case, so that \<open>name.upper()\<close> is the name.
\<close>

definition preset_value :: "ui \<Rightarrow> string \<Rightarrow> rat" where
  \<comment> \<open>\<open>self.preset_values.get(key, 50)\<close>\<close>
  "preset_value s key = (case preset_values s key of None \<Rightarrow> 50 | Some v \<Rightarrow> v)"

definition edit_key :: "string \<Rightarrow> string" where
  "edit_key name = (if name = ''MIX'' then ''WET/DRY'' else name)"

fun sync_sliders :: "setter \<Rightarrow> string list \<Rightarrow> ui \<Rightarrow> ui res" where
  "sync_sliders setv [] s = Result s"
| "sync_sliders setv (name # names) s =
     and_then
       (set_blocked setv (SliderMap name) (int_of_rat (preset_value s (edit_key name) * 10)) s)
       (sync_sliders setv names)"

definition new_dial :: "string \<Rightarrow> int \<Rightarrow> dial" where
  "new_dial key v =
     \<lparr>dkey = key,
      dwidget = \<lparr>wvalue = max 0 (min 100 v), wminimum = 0, wmaximum = 100, signalsBlocked = False\<rparr>,
      dlcd = fmt02 v\<rparr>"

fun create_dials :: "string list \<Rightarrow> ui \<Rightarrow> ui res" where
  "create_dials [] s = Result s"
| "create_dials (name # names) s =
     (let v = py_round (preset_value s (edit_key name)) in
      if \<not> c_int v then Raised OverflowError
      else create_dials names (s\<lparr>dials := dials s @ [new_dial (edit_key name) v]\<rparr>))"

fun sync_dials :: "setter \<Rightarrow> nat \<Rightarrow> string list \<Rightarrow> ui \<Rightarrow> ui res" where
  "sync_dials setv i [] s = Result s"
| "sync_dials setv i (name # names) s =
     and_then
       (set_blocked setv (EditDial i) (py_round (preset_value s (edit_key name))) s)
       (sync_dials setv (Suc i) names)"

definition show_edit_preset :: "nat \<Rightarrow> string list \<Rightarrow> string list \<Rightarrow> ui \<Rightarrow> ui res" where
  "show_edit_preset fuel sliders names s =
     and_then (sync_sliders (setValue fuel) sliders s)
       (\<lambda>s1. and_then (create_dials names s1)
          (sync_dials (setValue fuel) (length (dials s1)) names))"

subsection \<open>Observations used in the statements\<close>




definition slider_value :: "string \<Rightarrow> ui \<Rightarrow> int option" where
  "slider_value key s = map_option wvalue (slider_widget_map s key)"

definition dial_value :: "nat \<Rightarrow> ui \<Rightarrow> int option" where
  "dial_value i s = map_option wvalue (widget_at (EditDial i) s)"

definition knob_value :: "string \<Rightarrow> ui \<Rightarrow> int option" where
  "knob_value key s = map_option wvalue (knob_widget_map s key)"

definition is_fine_slider :: "widget \<Rightarrow> bool" where
  "is_fine_slider w \<longleftrightarrow> wminimum w = 0 \<and> wmaximum w = 1000 \<and> 0 \<le> wvalue w \<and> wvalue w \<le> 1000"

definition is_coarse_knob :: "widget \<Rightarrow> bool" where
  "is_coarse_knob w \<longleftrightarrow> wminimum w = 0 \<and> wmaximum w = 100 \<and> 0 \<le> wvalue w \<and> wvalue w \<le> 100"


text \<open>Reading a result, for statements without bound variables.\<close>

definition result_or :: "'a \<Rightarrow> 'a res \<Rightarrow> 'a" where
  "result_or d r = (case r of Result a \<Rightarrow> a | Raised e \<Rightarrow> d | NoResult \<Rightarrow> d)"

definition read_res :: "'a res \<Rightarrow> ('a \<Rightarrow> 'b option) \<Rightarrow> 'b option" where
  "read_res r f = (case r of Result a \<Rightarrow> f a | Raised e \<Rightarrow> None | NoResult \<Rightarrow> None)"


subsection \<open>The widgets at start-up and after opening the edit page\<close>

text \<open>
  \<open>initial_gui\<close> is the state that the constructor builds from the class attribute
  \<open>SLIDERS\<close>: six sliders with range 0..1000 and value \<open>int(default * 10)\<close>, their
  labels, and \<open>self.preset_values\<close>; \<open>knob_widget_map\<close> is empty, as it always is,
  because the program never stores into it. \<open>edit_names\<close> is the list \<open>names\<close> of
  \<open>_show_edit_preset\<close>; the non-breaking hyphen of three of its names is written as
  \<open>-\<close> (those names have no slider, so their dials are bound to nothing).
  \<open>edit_opened\<close> and \<open>edit_reopened\<close> are the states after opening the edit page
  once and twice.
\<close>

definition SLIDERS :: "(string \<times> rat) list" where
  "SLIDERS = [(''DECAY'', 50), (''DAMPING'', 254 / 10), (''WET/DRY'', 265 / 10),
              (''LEVEL'', 504 / 10), (''WEIGHT'', 806 / 10), (''DIFFUSION'', 50)]"

definition slider_texts :: "(string \<times> string) list" where
  "slider_texts = [(''DECAY'', ''50''), (''DAMPING'', ''25.4''), (''WET/DRY'', ''26.5''),
                   (''LEVEL'', ''50.4''), (''WEIGHT'', ''80.6''), (''DIFFUSION'', ''50'')]"

definition initial_gui :: ui where
  "initial_gui =
     \<lparr>knob_widget_map = Map.empty,
      slider_widget_map =
        map_of (map (\<lambda>(n, d). (n, \<lparr>wvalue = int_of_rat (d * 10), wminimum = 0, wmaximum = 1000,
                                    signalsBlocked = False\<rparr>)) SLIDERS),
      slider_label_map = map_of slider_texts,
      dials = [],
      preset_values = map_of SLIDERS,
      writes = []\<rparr>"

definition edit_names :: "string list" where
  "edit_names =
     [''DECAY'', ''PRE-DELAY'', ''SIZE'', ''DAMPING'', ''DIFFUSION'', ''WIDTH'',
      ''MOD RATE'', ''MOD DEPTH'', ''MIX'', ''LEVEL'', ''LOW-CUT'', ''HIGH-CUT'']"

definition edit_opened :: ui where
  "edit_opened = result_or initial_gui (show_edit_preset 1 (map fst SLIDERS) edit_names initial_gui)"

definition edit_reopened :: ui where
  "edit_reopened = result_or edit_opened (show_edit_preset 1 (map fst SLIDERS) edit_names edit_opened)"

section \<open>Preset stores\<close>

text \<open>
  A Python dictionary is an association list in insertion order: \<open>AList.update\<close>
  replaces the value of a key in place or appends a new key, \<open>AList.delete\<close> is
  \<open>pop\<close>, \<open>map_of\<close> is lookup. The numbers stored in presets are slider values
  divided by ten and knob values; no claim depends on their arithmetic, and they are
  kept as rationals.
\<close>

type_synonym pydict = "(string \<times> rat) list"

datatype unit_id = Mod | Bic | Ech

text \<open>
  A preset file either does not exist, holds text that \<open>json.load\<close> rejects, or holds
  a JSON document.
\<close>

datatype 'd file_state = NoFile | Unparseable | Json 'd

text \<open>
  A preset of the main store is the dictionary that \<open>_save_preset\<close> builds, with its
  three keys \<open>position\<close>, \<open>values\<close> and \<open>modulation\<close>. The modulation sub-maps are
  dictionary objects of their own: the preset holds their addresses in the heap below,
  so that a shared object and a copy are different things in the model. A document on
  disk holds the sub-maps by value.
\<close>

record preset =
  position :: string
  pvalues :: pydict
  modulation :: "(string \<times> nat) list"

record doc_preset =
  doc_position :: string
  doc_values :: pydict
  doc_modulation :: "(string \<times> pydict) list"

type_synonym main_doc = "(string \<times> doc_preset) list"
type_synonym bank_doc = "(string \<times> pydict) list"

text \<open>
  The state of the main window \<open>SpringHallUI\<close> and of the module globals it uses.
  \<open>heap\<close> holds the dictionary objects that presets refer to; the globals
  \<open>mod_value_map\<close>, \<open>bic_value_map\<close> and \<open>ech_value_map\<close> are the objects at the
  addresses \<open>value_map Mod\<close>, \<open>value_map Bic\<close> and \<open>value_map Ech\<close>. The attributes
  that exist once per modulation unit are indexed by the unit: \<open>unit_knobs s Bic\<close> is
  \<open>self.bic_knobs\<close> (absent until the modulation page is opened), \<open>bank_presets s Bic\<close>
  is \<open>self.bic_presets\<close>, \<open>bank_current_preset s Bic\<close> is \<open>self.bic_current_preset\<close>,
  \<open>bank_preset_file s Bic\<close> is the content of \<open>presets_bic.json\<close>, and likewise for
  \<open>Mod\<close> and \<open>Ech\<close>. \<open>slider_widgets\<close> lists the names of the sliders of the main
  page; each is registered under that name in \<open>slider_widget_map\<close> by the loop that
  creates it. \<open>console\<close> collects what the program prints about its preset file.
\<close>

record app =
  gui :: ui
  slider_widgets :: "string list"
  presets :: "(string \<times> preset) list"
  current_preset_name :: string
  current_preset_position :: string
  main_title :: string
  pos_lbl :: string
  edit_title :: "string option"
  heap :: "pydict list"
  unit_knobs :: "unit_id \<Rightarrow> (string \<times> widget) list option"
  preset_file :: "main_doc file_state"
  bank_presets :: "unit_id \<Rightarrow> bank_doc"
  bank_current_preset :: "unit_id \<Rightarrow> string option"
  bank_preset_file :: "unit_id \<Rightarrow> bank_doc file_state"
  bank_screen :: "unit_id \<Rightarrow> string"
  console :: "string list"

fun value_map :: "unit_id \<Rightarrow> nat" where
  "value_map Mod = 0"
| "value_map Bic = 1"
| "value_map Ech = 2"

definition heap_get :: "pydict list \<Rightarrow> nat \<Rightarrow> pydict" where
  "heap_get h a = (if a < length h then h ! a else [])"

text \<open>
  \<open>str.strip()\<close>. A character of a name is a code point below 256; \<open>is_space\<close>
  holds for those of them that Python counts as white space, which are the ones that
  \<open>strip\<close> removes at both ends.
\<close>

definition is_space :: "char \<Rightarrow> bool" where
  "is_space c \<longleftrightarrow> of_char c \<in> {9, 10, 11, 12, 13, 28, 29, 30, 31, 32, 133, 160 :: nat}"

definition strip :: "string \<Rightarrow> string" where
  "strip s = rev (dropWhile is_space (rev (dropWhile is_space s)))"

text \<open>
  What the user does with a name dialog: dismiss it, or accept it with some text in its
  line edit.
\<close>

datatype dialog_result = Rejected | Accepted string

subsection \<open>Slot allocation\<close>

text \<open>
  \<open>_next_pos\<close>: two nested loops over the rows 1..4 and the columns A..F, returning the
  first position that no preset holds, and \<open>??\<close> after the loops. \<open>all_slots\<close> and
  \<open>first_free_slot\<close> restate the scan order independently of the loops.
\<close>

fun scan_cols :: "nat \<Rightarrow> string \<Rightarrow> string list \<Rightarrow> string option" where
  "scan_cols r [] used = None"
| "scan_cols r (c # cs) used =
     (let pos = show_nat r @ [c] in
      if pos \<notin> set used then Some pos else scan_cols r cs used)"

fun scan_rows :: "nat list \<Rightarrow> string \<Rightarrow> string list \<Rightarrow> string option" where
  "scan_rows [] cols used = None"
| "scan_rows (r # rs) cols used =
     (case scan_cols r cols used of
        Some pos \<Rightarrow> Some pos
      | None \<Rightarrow> scan_rows rs cols used)"

definition next_pos :: "app \<Rightarrow> string" where
  "next_pos s =
     (let rows = [1, 2, 3, 4]; cols = ''ABCDEF'';
          used = map (\<lambda>(n, p). position p) (presets s)
      in case scan_rows rows cols used of
           Some pos \<Rightarrow> pos
         | None \<Rightarrow> ''??'')"

definition all_slots :: "string list" where
  "all_slots =
     [''1A'', ''1B'', ''1C'', ''1D'', ''1E'', ''1F'',
      ''2A'', ''2B'', ''2C'', ''2D'', ''2E'', ''2F'',
      ''3A'', ''3B'', ''3C'', ''3D'', ''3E'', ''3F'',
      ''4A'', ''4B'', ''4C'', ''4D'', ''4E'', ''4F'']"

definition first_free_slot :: "string list \<Rightarrow> string option" where
  "first_free_slot used = find (\<lambda>pos. pos \<notin> set used) all_slots"

subsection \<open>Saving and loading the main store\<close>

text \<open>
  \<open>_save_preset\<close> takes the outcome of its dialog and whether writing the preset file
  succeeds (the write is inside \<open>try\<close>/\<open>except\<close>, so a failure is only printed). The
  three \<open>.copy()\<close> calls allocate new dictionary objects with the contents of the live
  modulation maps.
\<close>

definition serialise :: "pydict list \<Rightarrow> (string \<times> preset) list \<Rightarrow> main_doc" where
  "serialise h ps =
     map (\<lambda>(n, p). (n, \<lparr>doc_position = position p, doc_values = pvalues p,
                          doc_modulation = map (\<lambda>(k, a). (k, heap_get h a)) (modulation p)\<rparr>)) ps"

definition slider_raw :: "app \<Rightarrow> string \<Rightarrow> int" where
  "slider_raw s n = (case slider_widget_map (gui s) n of None \<Rightarrow> 0 | Some w \<Rightarrow> wvalue w)"

datatype save_outcome = SaveCancelled | InvalidInput | DuplicateName | Saved string

definition SpringHallUI_save_preset :: "dialog_result \<Rightarrow> bool \<Rightarrow> app \<Rightarrow> save_outcome \<times> app" where
  "SpringHallUI_save_preset dlg write_ok s =
     (let suggested = next_pos s in
      case dlg of
        Rejected \<Rightarrow> (SaveCancelled, s)
      | Accepted text \<Rightarrow>
          let name = strip (strip text) in
          if name = [] then (InvalidInput, s)
          else if name \<in> set (map fst (presets s)) then (DuplicateName, s)
          else
            let vals = map (\<lambda>n. (n, of_int (slider_raw s n) / 10)) (slider_widgets s);
                a = length (heap s);
                h = heap s @ [heap_get (heap s) (value_map Mod),
                              heap_get (heap s) (value_map Bic),
                              heap_get (heap s) (value_map Ech)];
                ps = AList.update name
                       \<lparr>position = suggested, pvalues = vals,
                        modulation = [(''mod'', a), (''bic'', a + 1), (''ech'', a + 2)]\<rparr>
                       (presets s)
            in (Saved suggested,
                s\<lparr>presets := ps, heap := h,
                  preset_file := (if write_ok then Json (serialise h ps) else preset_file s),
                  console := console s @ [if write_ok then ''Presets written'' else ''Preset-file write error''],
                  current_preset_name := name, current_preset_position := suggested,
                  main_title := name,
                  edit_title := map_option (\<lambda>t. name) (edit_title s),
                  pos_lbl := ''User Preset '' @ suggested\<rparr>))"


text \<open>
  \<open>_load_preset\<close> sets every slider through \<open>setValue\<close>, so the handlers of the
  binding run; it then copies the preset's modulation sub-maps into the live maps key by
  key and, when the knob dictionaries of the modulation page exist, sets each knob from
  the live map. A modulation knob is a dial with range 0..100 whose \<open>valueChanged\<close>
  stores the new value in the live map of its unit (its value label is display only and
  is left out). Every \<open>setValue\<close> of the method is called with a number read from
  the store, and raises \<open>OverflowError\<close> when that number does not fit a C \<open>int\<close>.
\<close>

definition dict_get :: "pydict \<Rightarrow> string \<Rightarrow> rat \<Rightarrow> rat" where
  "dict_get d k dflt = (case map_of d k of None \<Rightarrow> dflt | Some v \<Rightarrow> v)"

definition copy_into :: "pydict \<Rightarrow> pydict \<Rightarrow> pydict" where
  \<comment> \<open>\<open>for k, v in src.items(): dst[k] = v\<close>\<close>
  "copy_into src dst = fold (\<lambda>(k, v). AList.update k v) src dst"

fun set_sliders :: "nat \<Rightarrow> pydict \<Rightarrow> string list \<Rightarrow> ui \<Rightarrow> ui res" where
  "set_sliders fuel vals [] g = Result g"
| "set_sliders fuel vals (n # ns) g =
     and_then (setValue fuel (SliderMap n) (int_of_rat (dict_get vals n 0 * 10)) g)
       (set_sliders fuel vals ns)"

definition unit_knob_valueChanged :: "unit_id \<Rightarrow> string \<Rightarrow> int \<Rightarrow> app \<Rightarrow> app" where
  \<comment> \<open>\<open>lambda val, n=name: bic_value_map.update({n: val})\<close>, and likewise for the other units\<close>
  "unit_knob_valueChanged u n val s =
     s\<lparr>heap := (heap s)[value_map u := AList.update n (of_int val) (heap_get (heap s) (value_map u))]\<rparr>"

definition unit_knob_setValue :: "unit_id \<Rightarrow> string \<Rightarrow> int \<Rightarrow> app \<Rightarrow> app" where
  "unit_knob_setValue u n v s =
     (case unit_knobs s u of
        None \<Rightarrow> s
      | Some ks \<Rightarrow>
          (case map_of ks n of
             None \<Rightarrow> s
           | Some w \<Rightarrow>
               let v' = bound w v in
               if wvalue w = v' then s
               else
                 let s1 = s\<lparr>unit_knobs := (unit_knobs s)(u := Some (AList.update n (w\<lparr>wvalue := v'\<rparr>) ks))\<rparr>
                 in if signalsBlocked w then s1 else unit_knob_valueChanged u n v' s1))"

fun set_unit_knobs :: "unit_id \<Rightarrow> string list \<Rightarrow> app \<Rightarrow> app res" where
  "set_unit_knobs u [] s = Result s"
| "set_unit_knobs u (nm # nms) s =
     (let v = int_of_rat (dict_get (heap_get (heap s) (value_map u)) nm 0) in
      if \<not> c_int v then Raised OverflowError
      else set_unit_knobs u nms (unit_knob_setValue u nm v s))"

definition refresh_unit_knobs :: "unit_id \<Rightarrow> string \<times> app \<Rightarrow> (string \<times> app) res" where
  \<comment> \<open>\<open>if hasattr(self, "mod_knobs"): for name, knob in self.mod_knobs.items(): ...\<close>;
      the loop variable is the method's parameter \<open>name\<close>, which it rebinds\<close>
  "refresh_unit_knobs u = (\<lambda>(name, s).
     case unit_knobs s u of
       None \<Rightarrow> Result (name, s)
     | Some ks \<Rightarrow>
         and_then (set_unit_knobs u (map fst ks) s)
           (\<lambda>s'. Result (if ks = [] then name else fst (last ks), s')))"

definition sub_map :: "pydict list \<Rightarrow> (string \<times> nat) list \<Rightarrow> string \<Rightarrow> pydict" where
  \<comment> \<open>\<open>modulation.get(k, {})\<close>\<close>
  "sub_map h m k = (case map_of m k of None \<Rightarrow> [] | Some a \<Rightarrow> heap_get h a)"

definition apply_modulation :: "(string \<times> nat) list \<Rightarrow> pydict list \<Rightarrow> pydict list" where
  \<comment> \<open>the three loops \<open>for k, v in mod_vals.items(): mod_value_map[k] = v\<close>, in order\<close>
  "apply_modulation m h0 =
     (let h1 = h0[value_map Mod := copy_into (sub_map h0 m ''mod'') (heap_get h0 (value_map Mod))];
          h2 = h1[value_map Bic := copy_into (sub_map h1 m ''bic'') (heap_get h1 (value_map Bic))]
      in h2[value_map Ech := copy_into (sub_map h2 m ''ech'') (heap_get h2 (value_map Ech))])"

definition select_loaded :: "string \<Rightarrow> string \<times> app \<Rightarrow> app" where
  \<comment> \<open>the last five lines of \<open>_load_preset\<close>, with the value that \<open>name\<close> has there\<close>
  "select_loaded pos = (\<lambda>(name', s').
     s'\<lparr>current_preset_name := name',
        current_preset_position := pos,
        main_title := name',
        pos_lbl := ''User Preset '' @ pos,
        edit_title := map_option (\<lambda>t. name') (edit_title s')\<rparr>)"

definition SpringHallUI_load_preset :: "nat \<Rightarrow> string \<Rightarrow> app \<Rightarrow> app res" where
  "SpringHallUI_load_preset fuel name s =
     (case map_of (presets s) name of
        None \<Rightarrow> Result s
      | Some data \<Rightarrow>
          and_then (set_sliders fuel (pvalues data) (slider_widgets s) (gui s))
            (\<lambda>g. and_then
                   (refresh_unit_knobs Mod
                      (name, s\<lparr>gui := g, heap := apply_modulation (modulation data) (heap s)\<rparr>))
                   (\<lambda>r1. and_then (refresh_unit_knobs Bic r1)
                      (\<lambda>r2. and_then (refresh_unit_knobs Ech r2)
                         (\<lambda>r3. Result (select_loaded (position data) r3))))))"

subsection \<open>The presets window\<close>

text \<open>
  \<open>PresetsWindow\<close> works on the main window's \<open>presets\<close> dictionary itself.
  \<open>_rename\<close> takes the name shown in the selected list item, if any, and the outcome of
  the name dialog; \<open>self.presets.pop(old)\<close> raises \<open>KeyError\<close> when the name is not in
  the dictionary. \<open>_delete\<close> takes the selected item and the answer to its question.
\<close>

datatype rename_outcome = NoSelection | RenameCancelled | RenameInvalid | RenameDuplicate | Renamed

definition PresetsWindow_rename ::
  "string option \<Rightarrow> dialog_result \<Rightarrow> app \<Rightarrow> py_error + rename_outcome \<times> app" where
  "PresetsWindow_rename item dlg s =
     (case item of
        None \<Rightarrow> Inr (NoSelection, s)
      | Some old \<Rightarrow>
          (case dlg of
             Rejected \<Rightarrow> Inr (RenameCancelled, s)
           | Accepted text \<Rightarrow>
               let new = strip text in
               if new = [] then Inr (RenameInvalid, s)
               else if new \<noteq> old \<and> new \<in> set (map fst (presets s)) then Inr (RenameDuplicate, s)
               else
                 (case map_of (presets s) old of
                    None \<Rightarrow> Inl KeyError
                  | Some p \<Rightarrow>
                      Inr (Renamed, s\<lparr>presets := AList.update new p (AList.delete old (presets s))\<rparr>))))"

definition PresetsWindow_delete :: "string option \<Rightarrow> bool \<Rightarrow> app \<Rightarrow> app" where
  "PresetsWindow_delete item yes s =
     (case item of
        None \<Rightarrow> s
      | Some name \<Rightarrow> if yes then s\<lparr>presets := AList.delete name (presets s)\<rparr> else s)"

subsection \<open>The modulation-unit banks\<close>

text \<open>
  \<open>save_preset\<close> of the modulation page, for one unit: the name dialog, the answer to the
  overwrite question (asked only when the name exists), and whether the file write
  succeeds. Whatever the unit, it ends with \<open>self.save_mod_presets()\<close>, which is the
  closure that writes \<open>self.mod_presets\<close> to \<open>presets_mod.json\<close>, outside any
  \<open>try\<close>.
\<close>

definition get_knob_values :: "unit_id \<Rightarrow> app \<Rightarrow> pydict" where
  "get_knob_values u s =
     (case unit_knobs s u of
        None \<Rightarrow> []
      | Some ks \<Rightarrow> map (\<lambda>(lbl, knob). (lbl, of_int (wvalue knob))) ks)"

definition save_mod_presets :: "bool \<Rightarrow> app \<Rightarrow> py_error + app" where
  \<comment> \<open>the closure that \<open>__init__\<close> stores in \<open>self.save_mod_presets\<close>\<close>
  "save_mod_presets write_ok s =
     (if write_ok
      then Inr (s\<lparr>bank_preset_file := (bank_preset_file s)(Mod := Json (bank_presets s Mod))\<rparr>)
      else Inl OSError)"

datatype bank_outcome = BankCancelled | BankNoName | BankDeclined | BankSaved

definition save_preset ::
  "unit_id \<Rightarrow> dialog_result \<Rightarrow> bool \<Rightarrow> bool \<Rightarrow> app \<Rightarrow> py_error + bank_outcome \<times> app" where
  "save_preset u dlg overwrite_yes write_ok s =
     (case dlg of
        Rejected \<Rightarrow> Inr (BankCancelled, s)
      | Accepted text \<Rightarrow>
          let name = strip text in
          if name = [] then Inr (BankNoName, s)
          else if name \<in> set (map fst (bank_presets s u)) \<and> \<not> overwrite_yes then Inr (BankDeclined, s)
          else
            let s1 = s\<lparr>bank_presets := (bank_presets s)(u := AList.update name (get_knob_values u s) (bank_presets s u)),
                       bank_current_preset := (bank_current_preset s)(u := Some name),
                       bank_screen := (bank_screen s)(u := name)\<rparr>
            in (case save_mod_presets write_ok s1 of
                  Inl e \<Rightarrow> Inl e
                | Inr s2 \<Rightarrow> Inr (BankSaved, s2)))"

subsection \<open>Construction\<close>

text \<open>
  \<open>SpringHallUI.__init__\<close>: the three bank files are read by the local function
  \<open>load_presets\<close>, then \<open>presets.json\<close> is read inside \<open>try\<close>/\<open>except\<close>. Reading a
  document creates new dictionary objects for the modulation sub-maps of its presets.
  The result is an error when an exception leaves the constructor.
\<close>

record files =
  bic_preset_file :: "bank_doc file_state"
  mod_preset_file :: "bank_doc file_state"
  ech_preset_file :: "bank_doc file_state"
  main_preset_file :: "main_doc file_state"

definition load_presets :: "bank_doc file_state \<Rightarrow> py_error + bank_doc" where
  "load_presets f =
     (case f of
        NoFile \<Rightarrow> Inr []
      | Unparseable \<Rightarrow> Inl JSONDecodeError
      | Json d \<Rightarrow> Inr d)"

fun alloc_all :: "(string \<times> pydict) list \<Rightarrow> pydict list \<Rightarrow> (string \<times> nat) list \<times> pydict list" where
  "alloc_all [] h = ([], h)"
| "alloc_all ((k, d) # r) h =
     (let (refs, h') = alloc_all r (h @ [d]) in ((k, length h) # refs, h'))"

fun load_main_doc :: "main_doc \<Rightarrow> pydict list \<Rightarrow> (string \<times> preset) list \<times> pydict list" where
  "load_main_doc [] h = ([], h)"
| "load_main_doc ((n, dp) # rest) h =
     (let (refs, h1) = alloc_all (doc_modulation dp) h;
          (ps, h2) = load_main_doc rest h1
      in ((n, \<lparr>position = doc_position dp, pvalues = doc_values dp, modulation = refs\<rparr>) # ps, h2))"

definition initial_heap :: "pydict list" where
  "initial_heap =
     [[(''Speed'', 0), (''Shape'', 0), (''Phase'', 0), (''Spread'', 0)],
      [(''Rate'', 0), (''Depth'', 0), (''Tone'', 0), (''Mix'', 0)],
      [(''Time'', 0), (''FB'', 0), (''Tone'', 0), (''Mod'', 0), (''Mix'', 0), (''Level'', 0)]]"

definition build_app ::
  "files \<Rightarrow> bank_doc \<Rightarrow> bank_doc \<Rightarrow> bank_doc \<Rightarrow> (string \<times> preset) list \<Rightarrow> pydict list \<Rightarrow> string list \<Rightarrow> app" where
  \<comment> \<open>the window's attributes once \<open>__init__\<close> has read the four files\<close>
  "build_app fs bicp modp echp ps h msgs =
     \<lparr>gui = initial_gui,
      slider_widgets = map fst SLIDERS,
      presets = ps,
      current_preset_name = ''SpringHall'',
      current_preset_position = ''1A'',
      main_title = ''SpringHall'',
      pos_lbl = ''Default Preset 1A'',
      edit_title = None,
      heap = h,
      unit_knobs = (\<lambda>u. None),
      preset_file = main_preset_file fs,
      bank_presets = (\<lambda>u. case u of Mod \<Rightarrow> modp | Bic \<Rightarrow> bicp | Ech \<Rightarrow> echp),
      bank_current_preset = (\<lambda>u. None),
      bank_preset_file =
        (\<lambda>u. case u of Mod \<Rightarrow> mod_preset_file fs | Bic \<Rightarrow> bic_preset_file fs
                       | Ech \<Rightarrow> ech_preset_file fs),
      bank_screen = (\<lambda>u. []),
      console = msgs\<rparr>"

definition init :: "files \<Rightarrow> py_error + app" where
  "init fs =
     (case load_presets (bic_preset_file fs) of
        Inl e \<Rightarrow> Inl e
      | Inr bicp \<Rightarrow>
     (case load_presets (mod_preset_file fs) of
        Inl e \<Rightarrow> Inl e
      | Inr modp \<Rightarrow>
     (case load_presets (ech_preset_file fs) of
        Inl e \<Rightarrow> Inl e
      | Inr echp \<Rightarrow>
          (case main_preset_file fs of
             NoFile \<Rightarrow> Inr (build_app fs bicp modp echp [] initial_heap [])
           | Unparseable \<Rightarrow>
               Inr (build_app fs bicp modp echp [] initial_heap [''Preset-file read error''])
           | Json d \<Rightarrow>
               (let (ps, h) = load_main_doc d initial_heap
                in Inr (build_app fs bicp modp echp ps h [''Loaded presets from disk'']))))))"

subsection \<open>Observations and example states used in the statements\<close>

text \<open>
  \<open>startup_app\<close> is the window built when no preset file exists, \<open>three_saved\<close> the
  state after saving presets \<open>A\<close>, \<open>B\<close> and \<open>C\<close> from there, and \<open>example_B\<close> the
  second of them. \<open>example_bank\<close> has the Bic unit's Rate knob at 70 and a Bic preset
  \<open>A\<close> with Rate 10.
\<close>

definition occupied :: "app \<Rightarrow> string list" where
  \<comment> \<open>the positions held by the presets of the main store, in insertion order\<close>
  "occupied s = map (\<lambda>(n, p). position p) (presets s)"

definition new_preset :: "app \<Rightarrow> preset" where
  \<comment> \<open>the entry that a successful save adds in state \<open>s\<close>\<close>
  "new_preset s =
     \<lparr>position = next_pos s,
      pvalues = map (\<lambda>n. (n, of_int (slider_raw s n) / 10)) (slider_widgets s),
      modulation = [(''mod'', length (heap s)), (''bic'', length (heap s) + 1),
                    (''ech'', length (heap s) + 2)]\<rparr>"

definition save_all :: "string list \<Rightarrow> app \<Rightarrow> app" where
  \<comment> \<open>one accepted save per name, in order\<close>
  "save_all names s = fold (\<lambda>n s. snd (SpringHallUI_save_preset (Accepted n) True s)) names s"

definition no_files :: files where
  "no_files =
     \<lparr>bic_preset_file = NoFile, mod_preset_file = NoFile, ech_preset_file = NoFile,
      main_preset_file = NoFile\<rparr>"

definition startup_app :: app where
  \<comment> \<open>the window built when no preset file exists\<close>
  "startup_app = build_app no_files [] [] [] [] initial_heap []"

definition example_names :: "string list" where
  "example_names =
     [''P1'', ''P2'', ''P3'', ''P4'', ''P5'', ''P6'', ''P7'', ''P8'', ''P9'', ''P10'', ''P11'', ''P12'',
      ''P13'', ''P14'', ''P15'', ''P16'', ''P17'', ''P18'', ''P19'', ''P20'', ''P21'', ''P22'', ''P23'',
      ''P24'']"

definition three_saved :: app where
  "three_saved = save_all [''A'', ''B'', ''C''] startup_app"

definition example_B :: preset where
  "example_B = new_preset (save_all [''A''] startup_app)"

text \<open>The two components of a result, for statements without bound variables.\<close>

definition outcome_of :: "'e + 'o \<times> app \<Rightarrow> 'o option" where
  "outcome_of r = (case r of Inl e \<Rightarrow> None | Inr (out, s) \<Rightarrow> Some out)"

definition state_of :: "'e + 'o \<times> app \<Rightarrow> app option" where
  "state_of r = (case r of Inl e \<Rightarrow> None | Inr (out, s) \<Rightarrow> Some s)"

definition bank_entry :: "unit_id \<Rightarrow> string \<Rightarrow> app \<Rightarrow> pydict option" where
  "bank_entry u n s = map_of (bank_presets s u) n"

text \<open>The preset file holds exactly the store in memory.\<close>

definition file_in_sync :: "app \<Rightarrow> bool" where
  "file_in_sync s \<longleftrightarrow> preset_file s = Json (serialise (heap s) (presets s))"

definition example_bank :: app where
  "example_bank =
     startup_app
       \<lparr>unit_knobs := (unit_knobs startup_app)
          (Bic := Some [(''Rate'', \<lparr>wvalue = 70, wminimum = 0, wmaximum = 100, signalsBlocked = False\<rparr>)]),
        bank_presets := (bank_presets startup_app)(Bic := [(''A'', [(''Rate'', 10)])])\<rparr>"

definition bic_unparseable :: files where
  "bic_unparseable = no_files\<lparr>bic_preset_file := Unparseable\<rparr>"

definition main_unparseable :: files where
  "main_unparseable = no_files\<lparr>main_preset_file := Unparseable\<rparr>"

text \<open>
  A change of a modulation knob: a call of \<open>setValue\<close> on the knob, or its
  \<open>valueChanged\<close> handler run with a value. \<open>saved_modulation\<close> reads the modulation
  sub-maps of a stored preset through the heap.
\<close>

datatype knob_event = SetKnob unit_id string int | KnobChanged unit_id string int

fun apply_knob_event :: "knob_event \<Rightarrow> app \<Rightarrow> app" where
  "apply_knob_event (SetKnob u n v) s = unit_knob_setValue u n v s"
| "apply_knob_event (KnobChanged u n v) s = unit_knob_valueChanged u n v s"

definition knob_events :: "knob_event list \<Rightarrow> app \<Rightarrow> app" where
  "knob_events evs s = fold apply_knob_event evs s"

definition saved_modulation :: "app \<Rightarrow> string \<Rightarrow> (string \<times> pydict) list option" where
  "saved_modulation s name =
     map_option (\<lambda>p. map (\<lambda>(k, a). (k, heap_get (heap s) a)) (modulation p))
       (map_of (presets s) name)"

definition live_map :: "unit_id \<Rightarrow> app \<Rightarrow> pydict" where
  "live_map u s = heap_get (heap s) (value_map u)"

text \<open>
  The labels of a unit's knobs, and the value that the variable \<open>name\<close> has after the
  loop over them.
\<close>

definition knob_labels :: "app \<Rightarrow> unit_id \<Rightarrow> string list option" where
  "knob_labels s u = map_option (map fst) (unit_knobs s u)"

definition rebound :: "app \<Rightarrow> unit_id \<Rightarrow> string \<Rightarrow> string" where
  "rebound s u name =
     (case knob_labels s u of
        None \<Rightarrow> name
      | Some ls \<Rightarrow> if ls = [] then name else last ls)"

text \<open>
  The observations of a load: the number that it passes to the \<open>setValue\<close> of a
  slider, the key of a unit's sub-map in a preset, the selected name after a load, and
  the names of the store in the order of the dictionary.
\<close>

definition slider_target :: "preset \<Rightarrow> string \<Rightarrow> int" where
  \<comment> \<open>\<open>int(data["values"].get(n, 0) * 10)\<close>\<close>
  "slider_target data n = int_of_rat (dict_get (pvalues data) n 0 * 10)"

definition unit_key :: "unit_id \<Rightarrow> string" where
  "unit_key u = (case u of Mod \<Rightarrow> ''mod'' | Bic \<Rightarrow> ''bic'' | Ech \<Rightarrow> ''ech'')"

definition sliders_fine :: "app \<Rightarrow> bool" where
  \<comment> \<open>every slider of the main page exists and has the range 0..1000\<close>
  "sliders_fine s \<longleftrightarrow>
     list_all (\<lambda>n. case slider_widget_map (gui s) n of None \<Rightarrow> False | Some w \<Rightarrow> is_fine_slider w)
       (slider_widgets s)"

definition values_fit :: "preset \<Rightarrow> app \<Rightarrow> bool" where
  \<comment> \<open>every number that the load passes to a slider fits a C \<open>int\<close>\<close>
  "values_fit data s \<longleftrightarrow> list_all (\<lambda>n. c_int (slider_target data n)) (slider_widgets s)"

definition detached_refs :: "preset \<Rightarrow> bool" where
  \<comment> \<open>the modulation sub-maps of the preset are objects of their own, none of them a live map\<close>
  "detached_refs data \<longleftrightarrow> list_all (\<lambda>(k, a). 3 \<le> a) (modulation data)"

definition selected_after :: "app res \<Rightarrow> string option" where
  "selected_after r = read_res r (\<lambda>s. Some (current_preset_name s))"

definition store_names :: "app \<Rightarrow> string list" where
  "store_names s = map fst (presets s)"

text \<open>
  A preset file left by an earlier session, with a preset \<open>S\<close> that has DECAY 70,
  DAMPING 10 and the Bic rate 30, and a preset \<open>H\<close> whose DECAY value is
  10000000000; \<open>restored_app\<close> is the window that the constructor builds from it,
  \<open>stored_S\<close> and \<open>stored_H\<close> are the two presets in its store, and \<open>page_opened\<close>
  is the same window once the modulation page has created two Bic knobs.
\<close>

definition stored_doc :: main_doc where
  "stored_doc =
     [(''S'', \<lparr>doc_position = ''1A'',
              doc_values = [(''DECAY'', 70), (''DAMPING'', 10)],
              doc_modulation = [(''mod'', []), (''bic'', [(''Rate'', 30)]), (''ech'', [])]\<rparr>),
      (''H'', \<lparr>doc_position = ''1B'',
              doc_values = [(''DECAY'', 10000000000)],
              doc_modulation = []\<rparr>)]"

definition stored_files :: files where
  "stored_files = no_files\<lparr>main_preset_file := Json stored_doc\<rparr>"

definition restored_app :: app where
  "restored_app = (case init stored_files of Inl e \<Rightarrow> startup_app | Inr s \<Rightarrow> s)"

definition stored_S :: preset where
  "stored_S =
     \<lparr>position = ''1A'', pvalues = [(''DECAY'', 70), (''DAMPING'', 10)],
      modulation = [(''mod'', 3), (''bic'', 4), (''ech'', 5)]\<rparr>"

definition stored_H :: preset where
  "stored_H = \<lparr>position = ''1B'', pvalues = [(''DECAY'', 10000000000)], modulation = []\<rparr>"

definition page_opened :: app where
  "page_opened =
     restored_app\<lparr>unit_knobs := (\<lambda>u. None)
       (Bic := Some [(''Rate'', \<lparr>wvalue = 50, wminimum = 0, wmaximum = 100, signalsBlocked = False\<rparr>),
                     (''Mix'', \<lparr>wvalue = 50, wminimum = 0, wmaximum = 100, signalsBlocked = False\<rparr>)])\<rparr>"

section \<open>The blend surface, in exact arithmetic\<close>

text \<open>
  The blend surface (\<open>SoniSphere\<close>) computes with Python floats. The definitions below
  follow its methods with real numbers in place of floats: they describe the formulas,
  not the rounded results that the program obtains.
\<close>

record point =
  px :: real
  py :: real

record blend =
  wA :: real
  wB :: real
  wC :: real
  wD :: real

record sonisphere =
  cursor_pos :: point
  secondary_pos :: point
  dragging :: bool
  secondary_dragging :: bool

definition width :: real where "width = 1024"

definition height :: real where "height = 600"

definition distance :: "point \<Rightarrow> point \<Rightarrow> real" where
  "distance p c = sqrt ((px p - px c)\<^sup>2 + (py p - py c)\<^sup>2)"

definition clamp_point_to_circle :: "point \<Rightarrow> point \<Rightarrow> real \<Rightarrow> point" where
  "clamp_point_to_circle point center radius =
     (let dx = px point - px center;
          dy = py point - py center;
          dist = sqrt (dx\<^sup>2 + dy\<^sup>2)
      in if dist > radius
         then (let scale = radius / dist
               in \<lparr>px = px center + dx * scale, py = py center + dy * scale\<rparr>)
         else point)"

definition surface_center :: point where
  "surface_center = \<lparr>px = width / 2, py = height / 2\<rparr>"

definition reset_positions :: "sonisphere \<Rightarrow> sonisphere" where
  "reset_positions s =
     s\<lparr>cursor_pos := \<lparr>px = width / 2 - 20, py = height / 2\<rparr>,
       secondary_pos := \<lparr>px = width / 2 + 20, py = height / 2\<rparr>\<rparr>"

definition mouseMoveEvent :: "point \<Rightarrow> sonisphere \<Rightarrow> sonisphere" where
  "mouseMoveEvent pos s =
     (let center = surface_center; radius = 200 in
      if dragging s then s\<lparr>cursor_pos := clamp_point_to_circle pos center radius\<rparr>
      else if secondary_dragging s
      then s\<lparr>secondary_pos := clamp_point_to_circle pos center radius\<rparr>
      else s)"

definition manhattanLength :: "point \<Rightarrow> point \<Rightarrow> real" where
  "manhattanLength p q = \<bar>px p - px q\<bar> + \<bar>py p - py q\<bar>"

definition mousePressEvent :: "point \<Rightarrow> sonisphere \<Rightarrow> sonisphere" where
  "mousePressEvent pos s =
     (if manhattanLength (cursor_pos s) pos < 15 then s\<lparr>dragging := True\<rparr>
      else if manhattanLength (secondary_pos s) pos < 15 then s\<lparr>secondary_dragging := True\<rparr>
      else s)"

definition mouseReleaseEvent :: "sonisphere \<Rightarrow> sonisphere" where
  "mouseReleaseEvent s = s\<lparr>dragging := False, secondary_dragging := False\<rparr>"

definition calculate_blend :: "sonisphere \<Rightarrow> blend" where
  "calculate_blend s =
     (let x = px (cursor_pos s) / width;
          y = py (cursor_pos s) / height;
          top = 1 - y; bottom = y; left = 1 - x; right = x;
          a = left * top; b = right * top; c = left * bottom; d = right * bottom;
          total = a + b + c + d;
          divisor = (if total \<noteq> 0 then total else 1)
      in \<lparr>wA = a / divisor, wB = b / divisor, wC = c / divisor, wD = d / divisor\<rparr>)"

definition in_circle :: "point \<Rightarrow> bool" where
  "in_circle p \<longleftrightarrow> distance p surface_center \<le> 200"

datatype pointer_event = Press point | Move point | Release | Reset

fun pointer_step :: "pointer_event \<Rightarrow> sonisphere \<Rightarrow> sonisphere" where
  "pointer_step (Press p) s = mousePressEvent p s"
| "pointer_step (Move p) s = mouseMoveEvent p s"
| "pointer_step Release s = mouseReleaseEvent s"
| "pointer_step Reset s = reset_positions s"

section \<open>Properties of the binding\<close>


lemma and_then_simps [simp]:
  "and_then (Result a) f = f a"
  "and_then (Raised e) f = Raised e"
  "and_then NoResult f = NoResult"
  by (simp_all add: and_then_def)

lemma and_then_Result_iff:
  "and_then x f = Result b \<longleftrightarrow> (\<exists>a. x = Result a \<and> f a = Result b)"
  by (cases x) simp_all

lemma widget_at_put [simp]: "widget_at r s \<noteq> None \<Longrightarrow> widget_at r (put_widget r w s) = Some w"
  by (cases r) (simp_all split: if_splits)

lemma writes_put [simp]: "writes (put_widget r w s) = writes s"
  by (cases r) simp_all

lemma writes_block [simp]: "writes (blockSignals r b s) = writes s"
  by (simp add: blockSignals_def split: option.splits)

lemma put_put [simp]: "put_widget r w (put_widget r w' s) = put_widget r w s"
proof (cases r)
  case (EditDial i)
  then show ?thesis by (cases "i < length (dials s)") (simp_all add: list_update_beyond)
qed simp_all

lemma bound_blocked [simp]: "bound (w\<lparr>signalsBlocked := b\<rparr>) v = bound w v"
  by (simp add: bound_def)

lemma bound_value [simp]: "bound (w\<lparr>wvalue := x\<rparr>) v = bound w v"
  by (simp add: bound_def)

lemma put_writes [simp]: "put_widget r w (s\<lparr>writes := x\<rparr>) = (put_widget r w s)\<lparr>writes := x\<rparr>"
  by (cases r) simp_all

lemma widget_at_writes [simp]: "widget_at r (s\<lparr>writes := x\<rparr>) = widget_at r s"
  by (cases r) simp_all

lemma set_blocked_Suc:
  assumes "widget_at r s = Some w" and "c_int v"
  shows "set_blocked (setValue (Suc n)) r v s =
     Result ((put_widget r (w\<lparr>wvalue := bound w v, signalsBlocked := False\<rparr>) s)
             \<lparr>writes := writes s @ [r]\<rparr>)"
proof (cases "wvalue w = bound w v")
  case True
  have "w\<lparr>wvalue := wvalue w\<rparr> = w" by simp
  then have "w\<lparr>wvalue := bound w v\<rparr> = w" using True by simp
  then have e: "w\<lparr>wvalue := bound w v, signalsBlocked := False\<rparr> = w\<lparr>signalsBlocked := False\<rparr>"
    by simp
  have "set_blocked (setValue (Suc n)) r v s =
     Result ((put_widget r (w\<lparr>signalsBlocked := False\<rparr>) s)\<lparr>writes := writes s @ [r]\<rparr>)"
    using assms True by (simp add: set_blocked_def blockSignals_def Let_def)
  then show ?thesis by (simp only: e)
next
  case False
  then show ?thesis
    using assms by (simp add: set_blocked_def blockSignals_def Let_def)
qed

lemma map_dkey_update [simp]:
  "map dkey (xs[i := (xs ! i)\<lparr>dwidget := w\<rparr>]) = map dkey xs"
  by (induction xs arbitrary: i) (auto split: nat.splits)

lemma map_dkey_lcd [simp]:
  "map dkey (xs[i := (xs ! i)\<lparr>dlcd := l\<rparr>]) = map dkey xs"
  by (induction xs arbitrary: i) (auto split: nat.splits)


lemma bound_dials_less: "i \<in> set (bound_dials name s) \<Longrightarrow> i < length (dials s)"
  by (simp add: bound_dials_def)

lemma bound_dials_key: "i \<in> set (bound_dials name s) \<Longrightarrow> dkey (dials s ! i) = name"
  by (simp add: bound_dials_def)

lemma bound_dials_distinct [simp]: "distinct (bound_dials name s)"
  by (simp add: bound_dials_def)

lemma bound_dials_mem: "i < length (dials s) \<Longrightarrow> dkey (dials s ! i) = name \<Longrightarrow> i \<in> set (bound_dials name s)"
  by (simp add: bound_dials_def)

lemma slider_to_knob_eval:
  assumes "i < length (dials s)" and "c_int (int_of_tenth sv)"
  shows "slider_to_knob (setValue (Suc n)) i sv s =
     Result (if wvalue (dwidget (dials s ! i)) \<noteq> int_of_tenth sv
             then s\<lparr>dials := (dials s)[i := (dials s ! i)
                       \<lparr>dwidget := (dwidget (dials s ! i))
                          \<lparr>wvalue := bound (dwidget (dials s ! i)) (int_of_tenth sv),
                           signalsBlocked := False\<rparr>\<rparr>],
                    writes := writes s @ [EditDial i],
                    preset_values := (preset_values s)(dkey (dials s ! i) \<mapsto> of_int (int_of_tenth sv))\<rparr>
             else s\<lparr>preset_values := (preset_values s)(dkey (dials s ! i) \<mapsto> of_int (int_of_tenth sv))\<rparr>)"
  using assms
  by (simp add: slider_to_knob_def set_blocked_Suc Let_def del: setValue.simps)

lemma run_slider_to_knob_effect:
  assumes "\<forall>i\<in>set js. i < length (dials s)" and "distinct js" and "c_int (int_of_tenth v)"
  shows "\<exists>s' ws. run_slider_to_knob (setValue (Suc n)) js v s = Result s' \<and>
      knob_widget_map s' = knob_widget_map s \<and> slider_widget_map s' = slider_widget_map s \<and>
      slider_label_map s' = slider_label_map s \<and>
      map dkey (dials s') = map dkey (dials s) \<and>
      (\<forall>j. j \<notin> set js \<longrightarrow> dials s' ! j = dials s ! j) \<and>
      (\<forall>j\<in>set js. wvalue (dwidget (dials s' ! j)) =
           (if wvalue (dwidget (dials s ! j)) = int_of_tenth v then int_of_tenth v
            else bound (dwidget (dials s ! j)) (int_of_tenth v))) \<and>
      writes s' = writes s @ ws \<and> distinct ws \<and> set ws \<subseteq> EditDial ` set js \<and>
      length ws \<le> length js"
  using assms
proof (induction js arbitrary: s)
  case Nil
  then show ?case by simp
next
  case (Cons i js)
  let ?kv = "int_of_tenth v"
  let ?d = "dwidget (dials s ! i)"
  from Cons.prems have i: "i < length (dials s)" and ni: "i \<notin> set js" by simp_all
  obtain s1 where step: "slider_to_knob (setValue (Suc n)) i v s = Result s1"
    and f1: "knob_widget_map s1 = knob_widget_map s" "slider_widget_map s1 = slider_widget_map s"
       "slider_label_map s1 = slider_label_map s" "map dkey (dials s1) = map dkey (dials s)"
    and o1: "\<forall>j. j \<noteq> i \<longrightarrow> dials s1 ! j = dials s ! j"
    and v1: "wvalue (dwidget (dials s1 ! i)) = (if wvalue ?d = ?kv then ?kv else bound ?d ?kv)"
    and w1: "writes s1 = writes s \<or> writes s1 = writes s @ [EditDial i]"
    using i Cons.prems(3) by (simp add: slider_to_knob_eval del: setValue.simps)
  from f1(4) have l1: "length (dials s1) = length (dials s)" by (metis length_map)
  have p1: "\<forall>i\<in>set js. i < length (dials s1)" using Cons.prems(1) l1 by simp
  from Cons.IH [OF p1 _ Cons.prems(3)] Cons.prems(2)
  obtain s' ws where r: "run_slider_to_knob (setValue (Suc n)) js v s1 = Result s'"
    and f2: "knob_widget_map s' = knob_widget_map s1" "slider_widget_map s' = slider_widget_map s1"
       "slider_label_map s' = slider_label_map s1" "map dkey (dials s') = map dkey (dials s1)"
    and o2: "\<forall>j. j \<notin> set js \<longrightarrow> dials s' ! j = dials s1 ! j"
    and v2: "\<forall>j\<in>set js. wvalue (dwidget (dials s' ! j)) =
           (if wvalue (dwidget (dials s1 ! j)) = ?kv then ?kv
            else bound (dwidget (dials s1 ! j)) ?kv)"
    and w2: "writes s' = writes s1 @ ws" "distinct ws" "set ws \<subseteq> EditDial ` set js"
       "length ws \<le> length js"
    by auto
  have run: "run_slider_to_knob (setValue (Suc n)) (i # js) v s = Result s'"
    using step r by (simp del: setValue.simps)
  have others: "\<forall>j. j \<notin> set (i # js) \<longrightarrow> dials s' ! j = dials s ! j"
    using o1 o2 by simp
  have vals: "\<forall>j\<in>set (i # js). wvalue (dwidget (dials s' ! j)) =
           (if wvalue (dwidget (dials s ! j)) = ?kv then ?kv
            else bound (dwidget (dials s ! j)) ?kv)"
  proof
    fix j assume "j \<in> set (i # js)"
    then consider "j = i" | "j \<in> set js" "j \<noteq> i" using ni by auto
    then show "wvalue (dwidget (dials s' ! j)) =
           (if wvalue (dwidget (dials s ! j)) = ?kv then ?kv
            else bound (dwidget (dials s ! j)) ?kv)"
    proof cases
      case 1
      then show ?thesis using o2 ni v1 by simp
    next
      case 2
      then show ?thesis using v2 o1 by simp
    qed
  qed
  have ei: "EditDial i \<notin> set ws" using w2(3) ni by auto
  from w1 have "\<exists>ws'. writes s' = writes s @ ws' \<and> distinct ws' \<and>
      set ws' \<subseteq> EditDial ` set (i # js) \<and> length ws' \<le> length (i # js)"
  proof
    assume "writes s1 = writes s"
    then show ?thesis using w2 by (intro exI [of _ ws]) auto
  next
    assume "writes s1 = writes s @ [EditDial i]"
    then show ?thesis using w2 ei by (intro exI [of _ "EditDial i # ws"]) auto
  qed
  then obtain ws' where "writes s' = writes s @ ws'" "distinct ws'"
      "set ws' \<subseteq> EditDial ` set (i # js)" "length ws' \<le> length (i # js)" by blast
  with run f1 f2 others vals show ?case by (intro exI [of _ s'] exI [of _ ws']) simp
qed



lemma c_int_tenth: "c_int v \<Longrightarrow> c_int (v div 10)"
  by (simp add: c_int_def) linarith

lemma c_int_of_tenth: "c_int v \<Longrightarrow> c_int (int_of_tenth v)"
  by (auto simp add: c_int_def int_of_tenth_def)

lemma sync_controls_slider_effect:
  assumes "c_int (v div 10)"
  shows "\<exists>s'. sync_controls (setValue (Suc n)) name v ''slider'' s = Result s' \<and>
        dials s' = dials s \<and> slider_widget_map s' = slider_widget_map s \<and>
        slider_label_map s' = slider_label_map s \<and>
        (writes s' = writes s \<or>
         writes s' = writes s @ [KnobMap name] \<and> knob_widget_map s name \<noteq> None)"
  using assms
  by (auto simp add: sync_controls_def set_blocked_Suc simp del: setValue.simps split: option.splits)

lemma knob_to_slider_eval:
  assumes "slider_widget_map s key = Some sl" and "c_int (kv * 10)"
  shows "knob_to_slider (setValue (Suc n)) key kv s =
     Result (if wvalue sl \<noteq> kv * 10
             then s\<lparr>slider_widget_map := (slider_widget_map s)
                       (key \<mapsto> sl\<lparr>wvalue := bound sl (kv * 10), signalsBlocked := False\<rparr>),
                    writes := writes s @ [SliderMap key],
                    preset_values := (preset_values s)(key \<mapsto> of_int kv)\<rparr>
             else s\<lparr>preset_values := (preset_values s)(key \<mapsto> of_int kv)\<rparr>)"
  using assms
  by (simp add: knob_to_slider_def set_blocked_Suc Let_def del: setValue.simps)

lemma valueChanged_slider_effect:
  assumes "c_int v"
  shows "\<exists>s' ws. valueChanged (setValue (Suc n)) (SliderMap name) v s = Result s' \<and>
      slider_widget_map s' = slider_widget_map s \<and>
      map dkey (dials s') = map dkey (dials s) \<and>
      (\<forall>j. j \<notin> set (bound_dials name s) \<longrightarrow> dials s' ! j = dials s ! j) \<and>
      (\<forall>j\<in>set (bound_dials name s). wvalue (dwidget (dials s' ! j)) =
           (if wvalue (dwidget (dials s ! j)) = int_of_tenth v then int_of_tenth v
            else bound (dwidget (dials s ! j)) (int_of_tenth v))) \<and>
      writes s' = writes s @ ws \<and> distinct ws \<and>
      set ws \<subseteq> insert (KnobMap name) (EditDial ` set (bound_dials name s)) \<and>
      length ws \<le> (if knob_widget_map s name = None then 0 else 1) + length (bound_dials name s)"
proof -
  define s1 where "s1 = (case slider_label_map s name of
                  None \<Rightarrow> s
                | Some l \<Rightarrow> s\<lparr>slider_label_map := (slider_label_map s)(name \<mapsto> fmt_tenths v)\<rparr>)"
  have s1: "writes s1 = writes s" "dials s1 = dials s"
    "slider_widget_map s1 = slider_widget_map s" "knob_widget_map s1 = knob_widget_map s"
    by (simp_all add: s1_def split: option.splits)
  obtain s2 where s2: "sync_controls (setValue (Suc n)) name v ''slider'' s1 = Result s2"
    "dials s2 = dials s1" "slider_widget_map s2 = slider_widget_map s1"
    "writes s2 = writes s1 \<or> writes s2 = writes s1 @ [KnobMap name] \<and> knob_widget_map s1 name \<noteq> None"
    using sync_controls_slider_effect [OF c_int_tenth [OF assms], of n name s1] by blast
  have bd: "bound_dials name s2 = bound_dials name s"
    using s1 s2 by (simp add: bound_dials_def)
  have in_range: "\<forall>i\<in>set (bound_dials name s). i < length (dials s2)"
    using s1 s2 by (simp add: bound_dials_def)
  from run_slider_to_knob_effect [OF in_range bound_dials_distinct c_int_of_tenth [OF assms], of n]
  obtain s3 ws where s3: "run_slider_to_knob (setValue (Suc n)) (bound_dials name s) v s2 = Result s3"
    "slider_widget_map s3 = slider_widget_map s2" "map dkey (dials s3) = map dkey (dials s2)"
    "\<forall>j. j \<notin> set (bound_dials name s) \<longrightarrow> dials s3 ! j = dials s2 ! j"
    "\<forall>j\<in>set (bound_dials name s). wvalue (dwidget (dials s3 ! j)) =
           (if wvalue (dwidget (dials s2 ! j)) = int_of_tenth v then int_of_tenth v
            else bound (dwidget (dials s2 ! j)) (int_of_tenth v))"
    "writes s3 = writes s2 @ ws" "distinct ws" "set ws \<subseteq> EditDial ` set (bound_dials name s)"
    "length ws \<le> length (bound_dials name s)"
    by blast
  have vc: "valueChanged (setValue (Suc n)) (SliderMap name) v s = Result s3"
    using s2(1) s3(1) bd by (simp add: s1_def [symmetric] Let_def del: setValue.simps)
  have k: "KnobMap name \<notin> set ws" using s3(8) by auto
  from s2(4) have "\<exists>ws'. writes s3 = writes s @ ws' \<and> distinct ws' \<and>
      set ws' \<subseteq> insert (KnobMap name) (EditDial ` set (bound_dials name s)) \<and>
      length ws' \<le> (if knob_widget_map s name = None then 0 else 1) + length (bound_dials name s)"
  proof
    assume "writes s2 = writes s1"
    then show ?thesis using s3 s1 by (intro exI [of _ ws]) auto
  next
    assume "writes s2 = writes s1 @ [KnobMap name] \<and> knob_widget_map s1 name \<noteq> None"
    then show ?thesis using s3 s1 k by (intro exI [of _ "KnobMap name # ws"]) auto
  qed
  then obtain ws' where "writes s3 = writes s @ ws'" "distinct ws'"
      "set ws' \<subseteq> insert (KnobMap name) (EditDial ` set (bound_dials name s))"
      "length ws' \<le> (if knob_widget_map s name = None then 0 else 1) + length (bound_dials name s)"
    by blast
  with vc s1 s2 s3 show ?thesis
    by (intro exI [of _ s3] exI [of _ ws']) simp
qed



lemma same_value_widget: "wvalue w = x \<Longrightarrow> w\<lparr>wvalue := x\<rparr> = w"
  by auto

lemma setValue_slider_effect:
  assumes "slider_widget_map s name = Some w" and "c_int v" and "c_int (bound w v)"
  shows "\<exists>s' ws. setValue (Suc (Suc n)) (SliderMap name) v s = Result s' \<and>
      slider_widget_map s' = (slider_widget_map s)(name \<mapsto> w\<lparr>wvalue := bound w v\<rparr>) \<and>
      map dkey (dials s') = map dkey (dials s) \<and>
      (\<forall>j. j \<notin> set (bound_dials name s) \<longrightarrow> dials s' ! j = dials s ! j) \<and>
      (wvalue w \<noteq> bound w v \<and> \<not> signalsBlocked w \<longrightarrow>
         (\<forall>j\<in>set (bound_dials name s). wvalue (dwidget (dials s' ! j)) =
           (if wvalue (dwidget (dials s ! j)) = int_of_tenth (bound w v) then int_of_tenth (bound w v)
            else bound (dwidget (dials s ! j)) (int_of_tenth (bound w v))))) \<and>
      writes s' = writes s @ ws \<and> distinct ws \<and>
      set ws \<subseteq> insert (KnobMap name) (EditDial ` set (bound_dials name s)) \<and>
      length ws \<le> (if knob_widget_map s name = None then 0 else 1) + length (bound_dials name s)"
proof (cases "wvalue w = bound w v")
  case True
  have "(slider_widget_map s)(name \<mapsto> w\<lparr>wvalue := bound w v\<rparr>) = slider_widget_map s"
    using assms(1) same_value_widget [OF True] by (simp add: map_upd_triv)
  then show ?thesis
    using True assms(1,2)
    by (intro exI [of _ s] exI [of _ "[]"]) (simp add: setValue.simps(2) [of "Suc n"] del: setValue.simps)
next
  case False
  define s1 where "s1 = put_widget (SliderMap name) (w\<lparr>wvalue := bound w v\<rparr>) s"
  have s1: "slider_widget_map s1 = (slider_widget_map s)(name \<mapsto> w\<lparr>wvalue := bound w v\<rparr>)"
    "dials s1 = dials s" "writes s1 = writes s" "knob_widget_map s1 = knob_widget_map s"
    by (simp_all add: s1_def)
  have bd: "bound_dials name s1 = bound_dials name s" by (simp add: bound_dials_def s1)
  show ?thesis
  proof (cases "signalsBlocked w")
    case True
    then show ?thesis
      using False assms(1,2) s1
      by (intro exI [of _ s1] exI [of _ "[]"])
         (simp add: setValue.simps(2) [of "Suc n"] s1_def [symmetric] Let_def
            del: setValue.simps put_widget.simps)
  next
    case nb: False
    from valueChanged_slider_effect [OF assms(3), of n name s1]
    obtain s' ws where r: "valueChanged (setValue (Suc n)) (SliderMap name) (bound w v) s1 = Result s'"
      "slider_widget_map s' = slider_widget_map s1"
      "map dkey (dials s') = map dkey (dials s1)"
      "\<forall>j. j \<notin> set (bound_dials name s1) \<longrightarrow> dials s' ! j = dials s1 ! j"
      "\<forall>j\<in>set (bound_dials name s1). wvalue (dwidget (dials s' ! j)) =
           (if wvalue (dwidget (dials s1 ! j)) = int_of_tenth (bound w v) then int_of_tenth (bound w v)
            else bound (dwidget (dials s1 ! j)) (int_of_tenth (bound w v)))"
      "writes s' = writes s1 @ ws" "distinct ws"
      "set ws \<subseteq> insert (KnobMap name) (EditDial ` set (bound_dials name s1))"
      "length ws \<le> (if knob_widget_map s1 name = None then 0 else 1) + length (bound_dials name s1)"
      by blast
    have "setValue (Suc (Suc n)) (SliderMap name) v s = Result s'"
      using False nb assms(1,2) r(1)
      by (simp add: setValue.simps(2) [of "Suc n"] s1_def [symmetric] Let_def
            del: setValue.simps put_widget.simps valueChanged.simps)
    with r s1 bd show ?thesis
      by (intro exI [of _ s'] exI [of _ ws]) simp
  qed
qed



lemma fine_bound: "is_fine_slider w \<Longrightarrow> 0 \<le> bound w v \<and> bound w v \<le> 1000"
  by (simp add: is_fine_slider_def bound_def)


lemma coarse_bound_id: "is_coarse_knob w \<Longrightarrow> 0 \<le> v \<Longrightarrow> v \<le> 100 \<Longrightarrow> bound w v = v"
  by (simp add: is_coarse_knob_def bound_def)

lemma fine_bound_id: "is_fine_slider w \<Longrightarrow> 0 \<le> v \<Longrightarrow> v \<le> 1000 \<Longrightarrow> bound w v = v"
  by (simp add: is_fine_slider_def bound_def)

lemma c_int_small: "- 10000 \<le> v \<Longrightarrow> v \<le> 10000 \<Longrightarrow> c_int v"
  by (simp add: c_int_def)

lemma tenth_in_range:
  assumes "0 \<le> (v::int)" "v \<le> 1000"
  shows "0 \<le> v div 10" "v div 10 \<le> 100" "0 \<le> v div 10 * 10" "v div 10 * 10 \<le> 1000"
  using assms by auto

lemma int_of_tenth_nonneg: "0 \<le> v \<Longrightarrow> int_of_tenth v = v div 10"
  by (simp add: int_of_tenth_def)








lemma int_of_rat_numeral [simp]: "int_of_rat (numeral k) = numeral k"
  by (simp add: int_of_rat_def)

lemma py_round_numeral [simp]: "py_round (numeral k) = numeral k"
  by (simp add: py_round_def)

lemma py_round_start [simp]:
  "py_round (127 / 5) = 25" "py_round (53 / 2) = 26" "py_round (252 / 5) = 50"
proof -
  have "\<lfloor>127 / 5 :: rat\<rfloor> = 25" "\<lfloor>53 / 2 :: rat\<rfloor> = 26" "\<lfloor>252 / 5 :: rat\<rfloor> = 50"
    by (simp_all add: floor_eq_iff)
  then show "py_round (127 / 5) = 25" "py_round (53 / 2) = 26" "py_round (252 / 5) = 50"
    by (simp_all add: py_round_def Let_def)
qed

lemma initial_sliders:
  "slider_widget_map initial_gui ''DECAY'' = Some \<lparr>wvalue = 500, wminimum = 0, wmaximum = 1000, signalsBlocked = False\<rparr>"
  "slider_widget_map initial_gui ''DAMPING'' = Some \<lparr>wvalue = 254, wminimum = 0, wmaximum = 1000, signalsBlocked = False\<rparr>"
  "slider_widget_map initial_gui ''WET/DRY'' = Some \<lparr>wvalue = 265, wminimum = 0, wmaximum = 1000, signalsBlocked = False\<rparr>"
  "slider_widget_map initial_gui ''LEVEL'' = Some \<lparr>wvalue = 504, wminimum = 0, wmaximum = 1000, signalsBlocked = False\<rparr>"
  "slider_widget_map initial_gui ''WEIGHT'' = Some \<lparr>wvalue = 806, wminimum = 0, wmaximum = 1000, signalsBlocked = False\<rparr>"
  "slider_widget_map initial_gui ''DIFFUSION'' = Some \<lparr>wvalue = 500, wminimum = 0, wmaximum = 1000, signalsBlocked = False\<rparr>"
  by (simp_all add: initial_gui_def SLIDERS_def)

lemma initial_preset_values:
  "preset_value initial_gui ''DECAY'' = 50"
  "preset_value initial_gui ''DAMPING'' = 127 / 5"
  "preset_value initial_gui ''WET/DRY'' = 53 / 2"
  "preset_value initial_gui ''LEVEL'' = 252 / 5"
  "preset_value initial_gui ''WEIGHT'' = 403 / 5"
  "preset_value initial_gui ''DIFFUSION'' = 50"
  "preset_value initial_gui ''PRE-DELAY'' = 50"
  "preset_value initial_gui ''SIZE'' = 50"
  "preset_value initial_gui ''WIDTH'' = 50"
  "preset_value initial_gui ''MOD RATE'' = 50"
  "preset_value initial_gui ''MOD DEPTH'' = 50"
  "preset_value initial_gui ''LOW-CUT'' = 50"
  "preset_value initial_gui ''HIGH-CUT'' = 50"
  by (simp_all add: initial_gui_def SLIDERS_def preset_value_def)

lemma put_same: "widget_at r s = Some w \<Longrightarrow> put_widget r w s = s"
proof (cases r)
  case (EditDial i)
  assume "widget_at r s = Some w"
  with EditDial have "i < length (dials s)" "dwidget (dials s ! i) = w" by (simp_all split: if_splits)
  then have "(dials s ! i)\<lparr>dwidget := w\<rparr> = dials s ! i" by auto
  then show ?thesis using EditDial by simp
qed (simp_all add: map_upd_triv)

lemma set_blocked_same:
  assumes "widget_at r s = Some w" and "c_int v" and "bound w v = wvalue w" and "\<not> signalsBlocked w"
  shows "set_blocked (setValue (Suc n)) r v s = Result (s\<lparr>writes := writes s @ [r]\<rparr>)"
proof -
  have "w\<lparr>wvalue := wvalue w, signalsBlocked := False\<rparr> = w" using assms(4) by auto
  then have "put_widget r (w\<lparr>wvalue := bound w v, signalsBlocked := False\<rparr>) s = s"
    using assms(1,3) by (simp add: put_same)
  then show ?thesis using set_blocked_Suc [OF assms(1,2), of n] by simp
qed

lemma sync_sliders_settled:
  assumes "\<forall>n\<in>set names. \<exists>w. slider_widget_map s n = Some w \<and> \<not> signalsBlocked w \<and>
              c_int (int_of_rat (preset_value s (edit_key n) * 10)) \<and>
              bound w (int_of_rat (preset_value s (edit_key n) * 10)) = wvalue w"
  shows "sync_sliders (setValue (Suc k)) names s = Result (s\<lparr>writes := writes s @ map SliderMap names\<rparr>)"
  using assms
proof (induction names arbitrary: s)
  case Nil
  then show ?case by simp
next
  case (Cons n names)
  then obtain w where w: "widget_at (SliderMap n) s = Some w" "\<not> signalsBlocked w"
     "c_int (int_of_rat (preset_value s (edit_key n) * 10))"
     "bound w (int_of_rat (preset_value s (edit_key n) * 10)) = wvalue w" by auto
  let ?s1 = "s\<lparr>writes := writes s @ [SliderMap n]\<rparr>"
  have step: "set_blocked (setValue (Suc k)) (SliderMap n)
      (int_of_rat (preset_value s (edit_key n) * 10)) s = Result ?s1"
    using set_blocked_same [OF w(1,3,4,2)] .
  have "\<forall>n\<in>set names. \<exists>w. slider_widget_map ?s1 n = Some w \<and> \<not> signalsBlocked w \<and>
              c_int (int_of_rat (preset_value ?s1 (edit_key n) * 10)) \<and>
              bound w (int_of_rat (preset_value ?s1 (edit_key n) * 10)) = wvalue w"
    using Cons.prems by (simp add: preset_value_def)
  from Cons.IH [OF this] step show ?case by (simp del: setValue.simps)
qed

lemma sync_sliders_start:
  "sync_sliders (setValue 1) (map fst SLIDERS) initial_gui =
     Result (initial_gui\<lparr>writes := map SliderMap (map fst SLIDERS)\<rparr>)"
proof -
  have "\<forall>n\<in>set (map fst SLIDERS). \<exists>w. slider_widget_map initial_gui n = Some w \<and> \<not> signalsBlocked w \<and>
              c_int (int_of_rat (preset_value initial_gui (edit_key n) * 10)) \<and>
              bound w (int_of_rat (preset_value initial_gui (edit_key n) * 10)) = wvalue w"
    by (simp add: SLIDERS_def initial_sliders initial_preset_values edit_key_def bound_def c_int_def)
  from sync_sliders_settled [OF this, of 0] show ?thesis by (simp add: initial_gui_def)
qed


lemma preset_value_dials [simp]: "preset_value (s\<lparr>dials := x\<rparr>) k = preset_value s k"
  by (simp add: preset_value_def)

lemma preset_value_writes [simp]: "preset_value (s\<lparr>writes := x\<rparr>) k = preset_value s k"
  by (simp add: preset_value_def)

lemma create_dials_eval:
  assumes "\<forall>n\<in>set names. c_int (py_round (preset_value s (edit_key n)))"
  shows "create_dials names s =
     Result (s\<lparr>dials := dials s @
                 map (\<lambda>n. new_dial (edit_key n) (py_round (preset_value s (edit_key n)))) names\<rparr>)"
  using assms
proof (induction names arbitrary: s)
  case Nil
  then show ?case by simp
next
  case (Cons n names)
  let ?s1 = "s\<lparr>dials := dials s @ [new_dial (edit_key n) (py_round (preset_value s (edit_key n)))]\<rparr>"
  have "\<forall>n\<in>set names. c_int (py_round (preset_value ?s1 (edit_key n)))"
    using Cons.prems by simp
  from Cons.IH [OF this] Cons.prems show ?case by (simp add: Let_def)
qed

lemma sync_dials_settled:
  assumes "\<forall>j<length names. i + j < length (dials s) \<and>
              \<not> signalsBlocked (dwidget (dials s ! (i + j))) \<and>
              c_int (py_round (preset_value s (edit_key (names ! j)))) \<and>
              bound (dwidget (dials s ! (i + j))) (py_round (preset_value s (edit_key (names ! j))))
                = wvalue (dwidget (dials s ! (i + j)))"
  shows "sync_dials (setValue (Suc k)) i names s =
     Result (s\<lparr>writes := writes s @ map EditDial [i..<i + length names]\<rparr>)"
  using assms
proof (induction names arbitrary: i s)
  case Nil
  then show ?case by simp
next
  case (Cons n names)
  let ?v = "py_round (preset_value s (edit_key n))"
  let ?s1 = "s\<lparr>writes := writes s @ [EditDial i]\<rparr>"
  from Cons.prems [rule_format, of 0]
  have w: "widget_at (EditDial i) s = Some (dwidget (dials s ! i))" "c_int ?v"
    "bound (dwidget (dials s ! i)) ?v = wvalue (dwidget (dials s ! i))"
    "\<not> signalsBlocked (dwidget (dials s ! i))" by simp_all
  have step: "set_blocked (setValue (Suc k)) (EditDial i) ?v s = Result ?s1"
    using set_blocked_same [OF w] .
  have "\<forall>j<length names. Suc i + j < length (dials ?s1) \<and>
              \<not> signalsBlocked (dwidget (dials ?s1 ! (Suc i + j))) \<and>
              c_int (py_round (preset_value ?s1 (edit_key (names ! j)))) \<and>
              bound (dwidget (dials ?s1 ! (Suc i + j))) (py_round (preset_value ?s1 (edit_key (names ! j))))
                = wvalue (dwidget (dials ?s1 ! (Suc i + j)))"
  proof (intro allI impI)
    fix j assume "j < length names"
    then have "Suc j < length (n # names)" by simp
    from Cons.prems [rule_format, OF this] show "Suc i + j < length (dials ?s1) \<and>
              \<not> signalsBlocked (dwidget (dials ?s1 ! (Suc i + j))) \<and>
              c_int (py_round (preset_value ?s1 (edit_key (names ! j)))) \<and>
              bound (dwidget (dials ?s1 ! (Suc i + j))) (py_round (preset_value ?s1 (edit_key (names ! j))))
                = wvalue (dwidget (dials ?s1 ! (Suc i + j)))" by simp
  qed
  from Cons.IH [OF this]
  have ih: "sync_dials (setValue (Suc k)) (Suc i) names ?s1 =
     Result (?s1\<lparr>writes := writes ?s1 @ map EditDial [Suc i..<Suc i + length names]\<rparr>)" .
  have u: "[i..<i + length (n # names)] = i # [Suc i..<Suc i + length names]"
  proof -
    have e: "i + length (n # names) = Suc i + length names" by simp
    have "i < Suc i + length names" by simp
    from upt_conv_Cons [OF this] show ?thesis unfolding e .
  qed
  show ?case unfolding u using step ih by (simp del: setValue.simps)
qed

lemma new_dial_settled:
  "\<not> signalsBlocked (dwidget (new_dial k v)) \<and> bound (dwidget (new_dial k v)) v = wvalue (dwidget (new_dial k v))"
  by (simp add: new_dial_def bound_def)

lemma show_edit_preset_settled:
  assumes "\<forall>n\<in>set sliders. \<exists>w. slider_widget_map s n = Some w \<and> \<not> signalsBlocked w \<and>
              c_int (int_of_rat (preset_value s (edit_key n) * 10)) \<and>
              bound w (int_of_rat (preset_value s (edit_key n) * 10)) = wvalue w"
    and "\<forall>n\<in>set names. c_int (py_round (preset_value s (edit_key n)))"
  shows "show_edit_preset (Suc k) sliders names s =
     Result (s\<lparr>dials := dials s @
                 map (\<lambda>n. new_dial (edit_key n) (py_round (preset_value s (edit_key n)))) names,
               writes := writes s @ map SliderMap sliders @
                 map EditDial [length (dials s)..<length (dials s) + length names]\<rparr>)"
proof -
  let ?s1 = "s\<lparr>writes := writes s @ map SliderMap sliders\<rparr>"
  let ?new = "map (\<lambda>n. new_dial (edit_key n) (py_round (preset_value s (edit_key n)))) names"
  let ?s2 = "?s1\<lparr>dials := dials ?s1 @ ?new\<rparr>"
  have a: "sync_sliders (setValue (Suc k)) sliders s = Result ?s1"
    using sync_sliders_settled [OF assms(1)] .
  have "\<forall>n\<in>set names. c_int (py_round (preset_value ?s1 (edit_key n)))"
    using assms(2) by simp
  from create_dials_eval [OF this] have b: "create_dials names ?s1 = Result ?s2" by simp
  have "\<forall>j<length names. length (dials s) + j < length (dials ?s2) \<and>
              \<not> signalsBlocked (dwidget (dials ?s2 ! (length (dials s) + j))) \<and>
              c_int (py_round (preset_value ?s2 (edit_key (names ! j)))) \<and>
              bound (dwidget (dials ?s2 ! (length (dials s) + j))) (py_round (preset_value ?s2 (edit_key (names ! j))))
                = wvalue (dwidget (dials ?s2 ! (length (dials s) + j)))"
    using assms(2) by (simp add: new_dial_settled)
  from sync_dials_settled [OF this, of k]
  have c: "sync_dials (setValue (Suc k)) (length (dials s)) names ?s2 =
     Result (?s2\<lparr>writes := writes ?s2 @ map EditDial [length (dials s)..<length (dials s) + length names]\<rparr>)" .
  show ?thesis
    unfolding show_edit_preset_def using a b c by (simp del: setValue.simps)
qed

lemma start_sliders_settled:
  "\<forall>n\<in>set (map fst SLIDERS). \<exists>w. slider_widget_map initial_gui n = Some w \<and> \<not> signalsBlocked w \<and>
              c_int (int_of_rat (preset_value initial_gui (edit_key n) * 10)) \<and>
              bound w (int_of_rat (preset_value initial_gui (edit_key n) * 10)) = wvalue w"
  by (simp add: SLIDERS_def initial_sliders initial_preset_values edit_key_def bound_def c_int_def)

lemma start_rounds:
  "map (\<lambda>n. py_round (preset_value initial_gui (edit_key n))) edit_names =
     [50, 50, 50, 25, 50, 50, 50, 50, 26, 50, 50, 50]"
  by (simp add: edit_names_def edit_key_def initial_preset_values)

lemma start_rounds_c_int: "\<forall>n\<in>set edit_names. c_int (py_round (preset_value initial_gui (edit_key n)))"
  by (simp add: edit_names_def edit_key_def initial_preset_values c_int_def)

lemma edit_opened_eq:
  "edit_opened = initial_gui
     \<lparr>dials := map (\<lambda>n. new_dial (edit_key n) (py_round (preset_value initial_gui (edit_key n)))) edit_names,
      writes := map SliderMap (map fst SLIDERS) @ map EditDial [0..<length edit_names]\<rparr>"
  unfolding edit_opened_def
  using show_edit_preset_settled [OF start_sliders_settled start_rounds_c_int, of 0]
  by (simp add: result_or_def initial_gui_def del: setValue.simps)


lemma edit_opened_settled:
  "\<forall>n\<in>set (map fst SLIDERS). \<exists>w. slider_widget_map edit_opened n = Some w \<and> \<not> signalsBlocked w \<and>
              c_int (int_of_rat (preset_value edit_opened (edit_key n) * 10)) \<and>
              bound w (int_of_rat (preset_value edit_opened (edit_key n) * 10)) = wvalue w"
  using start_sliders_settled by (simp add: edit_opened_eq preset_value_def)

lemma edit_opened_rounds:
  "\<forall>n\<in>set edit_names. c_int (py_round (preset_value edit_opened (edit_key n)))"
  using start_rounds_c_int by (simp add: edit_opened_eq preset_value_def)

lemma edit_reopened_eq:
  "edit_reopened = initial_gui
     \<lparr>dials := map (\<lambda>n. new_dial (edit_key n) (py_round (preset_value initial_gui (edit_key n)))) edit_names @
               map (\<lambda>n. new_dial (edit_key n) (py_round (preset_value initial_gui (edit_key n)))) edit_names,
      writes := map SliderMap (map fst SLIDERS) @ map EditDial [0..<length edit_names] @
                map SliderMap (map fst SLIDERS) @
                map EditDial [length edit_names..<length edit_names + length edit_names]\<rparr>"
proof -
  have "show_edit_preset 1 (map fst SLIDERS) edit_names edit_opened =
     Result (edit_opened\<lparr>dials := dials edit_opened @
                 map (\<lambda>n. new_dial (edit_key n) (py_round (preset_value edit_opened (edit_key n)))) edit_names,
               writes := writes edit_opened @ map SliderMap (map fst SLIDERS) @
                 map EditDial [length (dials edit_opened)..<length (dials edit_opened) + length edit_names]\<rparr>)"
    using show_edit_preset_settled [OF edit_opened_settled edit_opened_rounds, of 0] by simp
  then show ?thesis
    unfolding edit_reopened_def by (simp add: result_or_def edit_opened_eq preset_value_def)
qed

lemma start_dials:
  "map (\<lambda>n. new_dial (edit_key n) (py_round (preset_value initial_gui (edit_key n)))) edit_names =
     [new_dial ''DECAY'' 50, new_dial ''PRE-DELAY'' 50, new_dial ''SIZE'' 50, new_dial ''DAMPING'' 25,
      new_dial ''DIFFUSION'' 50, new_dial ''WIDTH'' 50, new_dial ''MOD RATE'' 50,
      new_dial ''MOD DEPTH'' 50, new_dial ''WET/DRY'' 26, new_dial ''LEVEL'' 50,
      new_dial ''LOW-CUT'' 50, new_dial ''HIGH-CUT'' 50]"
  by (simp add: edit_names_def edit_key_def initial_preset_values)

lemma edit_opened_dials:
  "dials edit_opened =
     [new_dial ''DECAY'' 50, new_dial ''PRE-DELAY'' 50, new_dial ''SIZE'' 50, new_dial ''DAMPING'' 25,
      new_dial ''DIFFUSION'' 50, new_dial ''WIDTH'' 50, new_dial ''MOD RATE'' 50,
      new_dial ''MOD DEPTH'' 50, new_dial ''WET/DRY'' 26, new_dial ''LEVEL'' 50,
      new_dial ''LOW-CUT'' 50, new_dial ''HIGH-CUT'' 50]"
  by (simp add: edit_opened_eq start_dials)


lemma dkey_new_dial [simp]: "dkey (new_dial k v) = k"
  by (simp add: new_dial_def)


lemma upt_12: "[0..<12] = [0, 1, 2, 3, 4, 5, 6, 7, 8, 9, 10, 11]"
  by (simp add: upt_rec)

lemma edit_opened_damping: "bound_dials ''DAMPING'' edit_opened = [3]"
  by (simp add: bound_dials_def edit_opened_dials upt_12)


lemma edit_opened_maps:
  "slider_widget_map edit_opened = slider_widget_map initial_gui"
  "knob_widget_map edit_opened = Map.empty"
  "slider_label_map edit_opened = slider_label_map initial_gui"
  "preset_values edit_opened = preset_values initial_gui"
  by (simp_all add: edit_opened_eq initial_gui_def)

lemma edit_reopened_maps:
  "slider_widget_map edit_reopened = slider_widget_map initial_gui"
  "knob_widget_map edit_reopened = Map.empty"
  "slider_label_map edit_reopened = slider_label_map initial_gui"
  "preset_values edit_reopened = preset_values initial_gui"
  by (simp_all add: edit_reopened_eq initial_gui_def)


lemma py_round_of_int [simp]: "py_round (of_int z) = z"
  by (simp add: py_round_def)

lemma py_round_of_int_mult [simp]: "py_round (of_int z * 10) = z * 10"
  using py_round_of_int [of "z * 10"] by (simp del: py_round_of_int)

lemma neg_tenfold_div: "- (k * 10) div 10 = - (k::int)"
proof -
  have "- (k * 10) = (- k) * 10" by simp
  then show ?thesis by (simp only: nonzero_mult_div_cancel_right)
qed

lemma int_of_tenth_mult [simp]: "int_of_tenth (k * 10) = k"
  by (simp add: int_of_tenth_def neg_tenfold_div)

lemma slider_to_knob_fixed:
  assumes "i < length (dials s)" and "wvalue (dwidget (dials s ! i)) = int_of_tenth sv"
    and "preset_values s (dkey (dials s ! i)) = Some (of_int (int_of_tenth sv))"
  shows "slider_to_knob setv i sv s = Result s"
  using assms by (simp add: slider_to_knob_def Let_def map_upd_triv)

lemma knob_to_slider_fixed:
  assumes "slider_widget_map s key = Some sl" and "wvalue sl = kv * 10"
    and "preset_values s key = Some (of_int kv)"
  shows "knob_to_slider setv key kv s = Result s"
  using assms by (simp add: knob_to_slider_def Let_def map_upd_triv)

lemma knob_to_slider_then_back:
  assumes "slider_widget_map s key = Some sl" and "is_fine_slider sl"
    and "i < length (dials s)" and "dkey (dials s ! i) = key"
    and "is_coarse_knob (dwidget (dials s ! i))"
  shows "\<exists>s1. knob_to_slider (setValue (Suc n)) key (wvalue (dwidget (dials s ! i))) s = Result s1 \<and>
           slider_value key s1 = Some (py_round (of_int (wvalue (dwidget (dials s ! i))) * 10)) \<and>
           slider_to_knob (setValue m) i (wvalue (dwidget (dials s ! i)) * 10) s1 = Result s1"
proof -
  let ?k = "wvalue (dwidget (dials s ! i))"
  have k: "0 \<le> ?k" "?k \<le> 100" using assms(5) by (simp_all add: is_coarse_knob_def)
  have b: "bound sl (?k * 10) = ?k * 10"
    using assms(2) k by (simp add: bound_def is_fine_slider_def)
  have c: "c_int (?k * 10)" using k by (intro c_int_small) simp_all
  obtain s1 where s1: "knob_to_slider (setValue (Suc n)) key ?k s = Result s1"
    and v: "slider_value key s1 = Some (?k * 10)"
    and d: "dials s1 = dials s"
    and p: "preset_values s1 key = Some (of_int ?k)"
    using assms(1) b c by (simp add: knob_to_slider_eval slider_value_def del: setValue.simps)
  have "slider_to_knob (setValue m) i (?k * 10) s1 = Result s1"
    using d p assms(3,4) by (intro slider_to_knob_fixed) simp_all
  with s1 v show ?thesis by simp
qed

lemma slider_to_knob_then_back:
  assumes "slider_widget_map s key = Some sl" and "is_fine_slider sl"
    and "i < length (dials s)" and "dkey (dials s ! i) = key"
    and "is_coarse_knob (dwidget (dials s ! i))"
  shows "\<exists>s1. slider_to_knob (setValue (Suc n)) i (wvalue sl) s = Result s1 \<and>
           dial_value i s1 = Some (wvalue sl div 10) \<and>
           (if 10 dvd wvalue sl
            then knob_to_slider (setValue m) key (wvalue sl div 10) s1 = Result s1
            else \<exists>s2. knob_to_slider (setValue (Suc m)) key (wvalue sl div 10) s1 = Result s2 \<and>
                   slider_value key s2 = Some (wvalue sl div 10 * 10) \<and>
                   writes s2 = writes s1 @ [SliderMap key])"
proof -
  let ?k = "wvalue sl div 10"
  let ?d = "dwidget (dials s ! i)"
  have r: "0 \<le> wvalue sl" "wvalue sl \<le> 1000"
    using assms(2) by (simp_all add: is_fine_slider_def)
  have t: "int_of_tenth (wvalue sl) = ?k" using r by (simp add: int_of_tenth_nonneg)
  have b: "bound ?d ?k = ?k"
    using assms(5) tenth_in_range [OF r] by (simp add: bound_def is_coarse_knob_def)
  have b': "bound sl (?k * 10) = ?k * 10"
    using assms(2) tenth_in_range [OF r] by (simp add: bound_def is_fine_slider_def)
  have c: "c_int (int_of_tenth (wvalue sl))" "c_int (?k * 10)"
    using tenth_in_range [OF r] t by (auto intro!: c_int_small)
  obtain s1 where s1: "slider_to_knob (setValue (Suc n)) i (wvalue sl) s = Result s1"
    and v: "dial_value i s1 = Some ?k"
    and sl: "slider_widget_map s1 key = Some sl"
    and p: "preset_values s1 key = Some (of_int ?k)"
    using assms(1,3,4) b t c(1)
    by (simp add: slider_to_knob_eval dial_value_def del: setValue.simps)
  show ?thesis
  proof (cases "10 dvd wvalue sl")
    case True
    then have "wvalue sl = ?k * 10" by simp
    then have "knob_to_slider (setValue m) key ?k s1 = Result s1"
      using sl p by (intro knob_to_slider_fixed [where sl = sl]) simp_all
    with s1 v True show ?thesis by simp
  next
    case False
    then have ne: "wvalue sl \<noteq> ?k * 10" by (metis dvd_triv_right)
    have "\<exists>s2. knob_to_slider (setValue (Suc m)) key ?k s1 = Result s2 \<and>
              slider_value key s2 = Some (?k * 10) \<and> writes s2 = writes s1 @ [SliderMap key]"
      using sl ne b' c(2)
      by (simp add: knob_to_slider_eval [where sl = sl] slider_value_def del: setValue.simps)
    with s1 v False show ?thesis by simp
  qed
qed

lemma slider_change_sets_dial:
  assumes "slider_widget_map s key = Some sl" and "is_fine_slider sl"
    and "i < length (dials s)" and "dkey (dials s ! i) = key"
    and "is_coarse_knob (dwidget (dials s ! i))"
    and "0 \<le> v" and "v \<le> 1000" and "v \<noteq> wvalue sl" and "\<not> signalsBlocked sl"
  shows "\<exists>s'. setValue (Suc (Suc n)) (SliderMap key) v s = Result s' \<and>
           slider_value key s' = Some v \<and> dial_value i s' = Some (v div 10)"
proof -
  have bv: "bound sl v = v" using assms(2,6,7) by (intro fine_bound_id)
  have cv: "c_int v" using assms(6,7) by (intro c_int_small) simp_all
  have mem: "i \<in> set (bound_dials key s)" using assms(3,4) by (intro bound_dials_mem)
  have kv: "int_of_tenth v = v div 10" using assms(6) by (simp add: int_of_tenth_nonneg)
  have bk: "bound (dwidget (dials s ! i)) (v div 10) = v div 10"
    using assms(5) tenth_in_range [OF assms(6,7)] by (intro coarse_bound_id) simp_all
  from setValue_slider_effect [OF assms(1) cv, of n] cv bv assms(8,9)
  obtain s' where s': "setValue (Suc (Suc n)) (SliderMap key) v s = Result s'"
    "slider_widget_map s' = (slider_widget_map s)(key \<mapsto> sl\<lparr>wvalue := v\<rparr>)"
    "map dkey (dials s') = map dkey (dials s)"
    "\<forall>j\<in>set (bound_dials key s). wvalue (dwidget (dials s' ! j)) =
           (if wvalue (dwidget (dials s ! j)) = int_of_tenth v then int_of_tenth v
            else bound (dwidget (dials s ! j)) (int_of_tenth v))"
    by auto
  have l: "length (dials s') = length (dials s)" using s'(3) by (metis length_map)
  have "wvalue (dwidget (dials s' ! i)) = v div 10"
    using s'(4) mem kv bk by simp
  then have "dial_value i s' = Some (v div 10)"
    using assms(3) l by (simp add: dial_value_def)
  moreover have "slider_value key s' = Some v" using s'(2) by (simp add: slider_value_def)
  ultimately show ?thesis using s'(1) by blast
qed

lemma dial_change_sets_slider:
  assumes "slider_widget_map s key = Some sl" and "is_fine_slider sl"
    and "i < length (dials s)" and "dkey (dials s ! i) = key"
    and "is_coarse_knob (dwidget (dials s ! i))"
    and "0 \<le> kv" and "kv \<le> 100" and "kv \<noteq> wvalue (dwidget (dials s ! i))"
    and "\<not> signalsBlocked (dwidget (dials s ! i))"
  shows "\<exists>s'. setValue (Suc (Suc n)) (EditDial i) kv s = Result s' \<and>
           dial_value i s' = Some kv \<and> slider_value key s' = Some (kv * 10)"
proof -
  let ?d = "dwidget (dials s ! i)"
  have bk: "bound ?d kv = kv" using assms(5,6,7) by (intro coarse_bound_id)
  have ck: "c_int kv" "c_int (kv * 10)" using assms(6,7) by (auto intro!: c_int_small)
  have bs: "bound sl (kv * 10) = kv * 10" using assms(2,6,7) by (intro fine_bound_id) simp_all
  define s1 where "s1 = put_widget (EditDial i) (?d\<lparr>wvalue := kv\<rparr>) s"
  have s1: "slider_widget_map s1 = slider_widget_map s" "length (dials s1) = length (dials s)"
    "dkey (dials s1 ! i) = key" "wvalue (dwidget (dials s1 ! i)) = kv"
    using assms(3,4) by (simp_all add: s1_def)
  have vc: "\<exists>s'. valueChanged (setValue (Suc n)) (EditDial i) kv s1 = Result s' \<and>
      dial_value i s' = Some kv \<and> slider_value key s' = Some (kv * 10)"
    using s1 assms(1,3) ck(2) bs
    by (auto simp add: knob_to_slider_eval dial_value_def slider_value_def simp del: setValue.simps)
  then obtain s' where s': "valueChanged (setValue (Suc n)) (EditDial i) kv s1 = Result s'"
    "dial_value i s' = Some kv" "slider_value key s' = Some (kv * 10)" by blast
  have "setValue (Suc (Suc n)) (EditDial i) kv s = Result s'"
    using assms(3,8,9) ck(1) bk s'(1)
    by (simp add: setValue.simps(2) [of "Suc n"] s1_def [symmetric] Let_def
          del: setValue.simps put_widget.simps valueChanged.simps)
  with s' show ?thesis by blast
qed

lemma sync_controls_unregistered:
  "knob_widget_map s name = None \<Longrightarrow> sync_controls setv name v ''slider'' s = Result s"
  by (simp add: sync_controls_def)

text \<open>
  Claim C1, as amended. For a parameter with a fine slider (0..1000) and a dial of the
  edit page (0..100) bound to it: propagating the dial's value \<open>k\<close> sets the slider to
  \<open>round(k * 10) = 10 * k\<close>, and propagating back from the slider's new value changes
  nothing; propagating the slider's value \<open>v\<close> sets the dial to the floor \<open>v div 10\<close>,
  and propagating back from the dial's new value changes nothing when \<open>v\<close> is a
  multiple of 10 and otherwise rewrites the slider to \<open>10 * (v div 10)\<close>. In
  particular, after a change of the slider to \<open>v\<close> the dial reads \<open>v div 10\<close>, and
  after a change of the dial to \<open>k\<close> the slider reads \<open>10 * k\<close>. \<open>sync_controls\<close>
  looks the knob up in \<open>knob_widget_map\<close>; as long as no knob is registered there,
  which is so in every state of the program, it changes nothing.
\<close>

theorem propagate_tenfold_and_floor:
  assumes "slider_widget_map s key = Some sl" and "is_fine_slider sl"
    and "i < length (dials s)" and "dkey (dials s ! i) = key"
    and "is_coarse_knob (dwidget (dials s ! i))"
  shows
    "(\<exists>s1. knob_to_slider (setValue (Suc n)) key (wvalue (dwidget (dials s ! i))) s = Result s1 \<and>
           slider_value key s1 = Some (py_round (of_int (wvalue (dwidget (dials s ! i))) * 10)) \<and>
           slider_to_knob (setValue m) i (wvalue (dwidget (dials s ! i)) * 10) s1 = Result s1) \<and>
     (\<exists>s1. slider_to_knob (setValue (Suc n)) i (wvalue sl) s = Result s1 \<and>
           dial_value i s1 = Some (wvalue sl div 10) \<and>
           (if 10 dvd wvalue sl
            then knob_to_slider (setValue m) key (wvalue sl div 10) s1 = Result s1
            else \<exists>s2. knob_to_slider (setValue (Suc m)) key (wvalue sl div 10) s1 = Result s2 \<and>
                   slider_value key s2 = Some (wvalue sl div 10 * 10) \<and>
                   writes s2 = writes s1 @ [SliderMap key])) \<and>
     (0 \<le> v \<and> v \<le> 1000 \<and> v \<noteq> wvalue sl \<and> \<not> signalsBlocked sl \<longrightarrow>
        (\<exists>s'. setValue (Suc (Suc n)) (SliderMap key) v s = Result s' \<and>
              slider_value key s' = Some v \<and> dial_value i s' = Some (v div 10))) \<and>
     (0 \<le> kv \<and> kv \<le> 100 \<and> kv \<noteq> wvalue (dwidget (dials s ! i)) \<and>
      \<not> signalsBlocked (dwidget (dials s ! i)) \<longrightarrow>
        (\<exists>s'. setValue (Suc (Suc n)) (EditDial i) kv s = Result s' \<and>
              dial_value i s' = Some kv \<and> slider_value key s' = Some (py_round (of_int kv * 10)))) \<and>
     (knob_widget_map s key = None \<longrightarrow> sync_controls setv key v ''slider'' s = Result s)"
  using knob_to_slider_then_back [OF assms, of n m]
    slider_to_knob_then_back [OF assms, of n m]
    slider_change_sets_dial [OF assms, of v n]
    dial_change_sets_slider [OF assms, of kv n]
    sync_controls_unregistered [of s key setv v]
  by (simp del: setValue.simps)




lemma valueChanged_dial_sets_slider:
  assumes "i < length (dials s)" and "slider_widget_map s (dkey (dials s ! i)) = Some sl"
    and "is_fine_slider sl" and "0 \<le> kv" and "kv \<le> 100"
  shows "\<exists>s'. valueChanged (setValue (Suc n)) (EditDial i) kv s = Result s' \<and>
           slider_value (dkey (dials s ! i)) s' = Some (kv * 10)"
proof -
  have c: "c_int (kv * 10)" using assms(4,5) by (intro c_int_small) simp_all
  have b: "bound sl (kv * 10) = kv * 10" using assms(3,4,5) by (intro fine_bound_id) simp_all
  show ?thesis
    using assms(1,2) b c
    by (auto simp add: knob_to_slider_eval slider_value_def simp del: setValue.simps)
qed

lemma damping_slider:
  "slider_widget_map edit_opened ''DAMPING'' =
     Some \<lparr>wvalue = 254, wminimum = 0, wmaximum = 1000, signalsBlocked = False\<rparr>"
  "slider_widget_map edit_reopened ''DAMPING'' =
     Some \<lparr>wvalue = 254, wminimum = 0, wmaximum = 1000, signalsBlocked = False\<rparr>"
  by (simp_all add: edit_opened_maps edit_reopened_maps initial_sliders)

lemma decay_slider:
  "slider_widget_map edit_opened ''DECAY'' =
     Some \<lparr>wvalue = 500, wminimum = 0, wmaximum = 1000, signalsBlocked = False\<rparr>"
  by (simp add: edit_opened_maps initial_sliders)

lemma fine_example [simp]:
  "0 \<le> v \<Longrightarrow> v \<le> 1000 \<Longrightarrow>
   is_fine_slider \<lparr>wvalue = v, wminimum = 0, wmaximum = 1000, signalsBlocked = b\<rparr>"
  by (simp add: is_fine_slider_def)

lemma coarse_new_dial [simp]: "is_coarse_knob (dwidget (new_dial k v))"
  by (simp add: is_coarse_knob_def new_dial_def)

lemma wvalue_new_dial: "0 \<le> v \<Longrightarrow> v \<le> 100 \<Longrightarrow> wvalue (dwidget (new_dial k v)) = v"
  by (simp add: new_dial_def)

lemma blocked_new_dial [simp]: "\<not> signalsBlocked (dwidget (new_dial k v))"
  by (simp add: new_dial_def)

theorem propagate_tenfold_and_floor_witness:
  "slider_widget_map edit_opened ''DAMPING'' =
     Some \<lparr>wvalue = 254, wminimum = 0, wmaximum = 1000, signalsBlocked = False\<rparr> \<and>
   is_fine_slider \<lparr>wvalue = 254, wminimum = 0, wmaximum = 1000, signalsBlocked = False\<rparr> \<and>
   3 < length (dials edit_opened) \<and> dkey (dials edit_opened ! 3) = ''DAMPING'' \<and>
   is_coarse_knob (dwidget (dials edit_opened ! 3)) \<and>
   wvalue (dwidget (dials edit_opened ! 3)) = 25 \<and>
   (\<exists>s1. knob_to_slider (setValue (Suc 0)) ''DAMPING'' 25 edit_opened = Result s1 \<and>
         slider_value ''DAMPING'' s1 = Some 250 \<and>
         slider_to_knob (setValue 0) 3 250 s1 = Result s1) \<and>
   (\<exists>s1. slider_to_knob (setValue (Suc 0)) 3 254 edit_opened = Result s1 \<and>
         dial_value 3 s1 = Some 25 \<and>
         (\<exists>s2. knob_to_slider (setValue (Suc 0)) ''DAMPING'' 25 s1 = Result s2 \<and>
               slider_value ''DAMPING'' s2 = Some 250 \<and>
               writes s2 = writes s1 @ [SliderMap ''DAMPING''])) \<and>
   (\<exists>s'. setValue (Suc (Suc 0)) (SliderMap ''DAMPING'') 707 edit_opened = Result s' \<and>
         slider_value ''DAMPING'' s' = Some 707 \<and> dial_value 3 s' = Some 70) \<and>
   (\<exists>s'. setValue (Suc (Suc 0)) (EditDial 3) 60 edit_opened = Result s' \<and>
         dial_value 3 s' = Some 60 \<and> slider_value ''DAMPING'' s' = Some 600) \<and>
   sync_controls (setValue 0) ''DAMPING'' 707 ''slider'' edit_opened = Result edit_opened"
proof -
  let ?sl = "\<lparr>wvalue = 254, wminimum = 0, wmaximum = 1000, signalsBlocked = False\<rparr>"
  have h1: "slider_widget_map edit_opened ''DAMPING'' = Some ?sl" by (rule damping_slider)
  have h2: "is_fine_slider ?sl" by simp
  have h3: "3 < length (dials edit_opened)" by (simp add: edit_opened_dials)
  have h4: "dkey (dials edit_opened ! 3) = ''DAMPING''" by (simp add: edit_opened_dials)
  have h5: "is_coarse_knob (dwidget (dials edit_opened ! 3))" by (simp add: edit_opened_dials)
  have v: "wvalue (dwidget (dials edit_opened ! 3)) = 25"
    by (simp add: edit_opened_dials wvalue_new_dial)
  have b: "\<not> signalsBlocked (dwidget (dials edit_opened ! 3))" by (simp add: edit_opened_dials)
  have k: "knob_widget_map edit_opened ''DAMPING'' = None" by (simp add: edit_opened_maps)
  have d: "(254::int) div 10 = 25" "\<not> (10::int) dvd 254" "(707::int) div 10 = 70" by simp_all
  from propagate_tenfold_and_floor [OF h1 h2 h3 h4 h5, of 0 0 707 60 "setValue 0"]
  show ?thesis using h1 h2 h3 h4 h5 v b k d by (simp del: setValue.simps)
qed

lemma py_round_257_tenths: "py_round (257 / 10) = 26"
proof -
  have "\<lfloor>257 / 10 :: rat\<rfloor> = 25" by (simp add: floor_eq_iff)
  then show ?thesis by (simp add: py_round_def Let_def)
qed

lemma slider_257_then_dial_handlers:
  "read_res (setValue 2 (SliderMap ''DECAY'') 257 edit_opened) (dial_value 0) = Some 25 \<and>
   read_res (and_then (setValue 2 (SliderMap ''DECAY'') 257 edit_opened)
               (valueChanged (setValue 1) (EditDial 0) 25)) (slider_value ''DECAY'') = Some 250"
proof -
  let ?sl = "\<lparr>wvalue = 500, wminimum = 0, wmaximum = 1000, signalsBlocked = False\<rparr>"
  have h1: "slider_widget_map edit_opened ''DECAY'' = Some ?sl" by (rule decay_slider)
  have h3: "0 < length (dials edit_opened)" "dkey (dials edit_opened ! 0) = ''DECAY''"
    "is_coarse_knob (dwidget (dials edit_opened ! 0))"
    by (simp_all add: edit_opened_dials)
  have mem: "0 \<in> set (bound_dials ''DECAY'' edit_opened)"
    using h3 by (intro bound_dials_mem)
  have c: "c_int 257" "c_int (bound ?sl 257)" by (simp_all add: c_int_def bound_def)
  from setValue_slider_effect [OF h1 c, of 0]
  obtain s' where s': "setValue 2 (SliderMap ''DECAY'') 257 edit_opened = Result s'"
    "slider_widget_map s' = (slider_widget_map edit_opened)(''DECAY'' \<mapsto> ?sl\<lparr>wvalue := bound ?sl 257\<rparr>)"
    "map dkey (dials s') = map dkey (dials edit_opened)"
    "\<forall>j\<in>set (bound_dials ''DECAY'' edit_opened). wvalue (dwidget (dials s' ! j)) =
           (if wvalue (dwidget (dials edit_opened ! j)) = int_of_tenth (bound ?sl 257)
            then int_of_tenth (bound ?sl 257)
            else bound (dwidget (dials edit_opened ! j)) (int_of_tenth (bound ?sl 257)))"
    by (auto simp add: numeral_2_eq_2 bound_def simp del: setValue.simps)
  have l: "length (dials s') = length (dials edit_opened)" using s'(3) by (metis length_map)
  have k0: "dkey (dials s' ! 0) = ''DECAY''"
    using s'(3) h3(1,2) l by (metis nth_map)
  have "wvalue (dwidget (dials s' ! 0)) = 25"
    using s'(4) mem
    by (simp add: bound_def int_of_tenth_def edit_opened_dials new_dial_def)
  then have first: "dial_value 0 s' = Some 25"
    using h3(1) l by (simp add: dial_value_def)
  have sl': "slider_widget_map s' (dkey (dials s' ! 0)) =
      Some \<lparr>wvalue = 257, wminimum = 0, wmaximum = 1000, signalsBlocked = False\<rparr>"
    using s'(2) k0 by (simp add: bound_def)
  have i0: "0 < length (dials s')" using h3(1) l by simp
  from valueChanged_dial_sets_slider [OF i0 sl', of 25 0]
  obtain s2 where "valueChanged (setValue 1) (EditDial 0) 25 s' = Result s2"
    "slider_value ''DECAY'' s2 = Some 250"
    using k0 by (auto simp del: setValue.simps valueChanged.simps)
  with s'(1) first show ?thesis by (simp add: read_res_def del: setValue.simps valueChanged.simps)
qed

text \<open>
  Claim C1 as stated fails: with the edit page open, moving the DECAY slider to 257
  leaves the dial at 25, while \<open>round(257 / 10)\<close> is 26; and running the dial's
  handlers with its new value 25 is not a no-op, since it rewrites the slider from 257
  to 250.
\<close>

theorem slider_change_is_floor_not_round:
  "read_res (setValue 2 (SliderMap ''DECAY'') 257 edit_opened) (dial_value 0) = Some 25 \<and>
   py_round (257 / 10) = 26 \<and>
   read_res (and_then (setValue 2 (SliderMap ''DECAY'') 257 edit_opened)
               (valueChanged (setValue 1) (EditDial 0) 25)) (slider_value ''DECAY'') = Some 250"
  using slider_257_then_dial_handlers py_round_257_tenths by simp




section \<open>Properties of the main preset store\<close>

lemma find_append_case:
  "find P (xs @ ys) = (case find P xs of None \<Rightarrow> find P ys | Some x \<Rightarrow> Some x)"
  by (induction xs) simp_all

lemma scan_cols_find:
  "scan_cols r cs used = find (\<lambda>pos. pos \<notin> set used) (map (\<lambda>c. show_nat r @ [c]) cs)"
  by (induction cs) (simp_all add: Let_def)

lemma scan_rows_find:
  "scan_rows rs cols used =
     find (\<lambda>pos. pos \<notin> set used) (concat (map (\<lambda>r. map (\<lambda>c. show_nat r @ [c]) cols) rs))"
  by (induction rs) (simp_all add: scan_cols_find find_append_case split: option.splits)

lemma grid_all_slots:
  "concat (map (\<lambda>r. map (\<lambda>c. show_nat r @ [c]) ''ABCDEF'') [1, 2, 3, 4]) = all_slots"
  by (simp add: all_slots_def show_nat.simps digit_def)

lemma scan_grid_first_free:
  "scan_rows [1, 2, 3, 4] ''ABCDEF'' used = first_free_slot used"
  by (simp only: scan_rows_find grid_all_slots first_free_slot_def)

lemma next_pos_first_free:
  "next_pos s = (case first_free_slot (occupied s) of Some pos \<Rightarrow> pos | None \<Rightarrow> ''??'')"
  by (simp only: next_pos_def Let_def occupied_def scan_grid_first_free)

lemma distinct_all_slots: "distinct all_slots"
  by (simp add: all_slots_def)

lemma length_all_slots: "length all_slots = 24"
  by (simp add: all_slots_def)

lemma find_after_prefix:
  "distinct xs \<Longrightarrow> k < length xs \<Longrightarrow> find (\<lambda>p. p \<notin> set (take k xs)) xs = Some (xs ! k)"
proof (induction xs arbitrary: k)
  case Nil
  then show ?case by simp
next
  case (Cons x xs)
  show ?case
  proof (cases k)
    case 0
    then show ?thesis by simp
  next
    case (Suc j)
    have "find (\<lambda>p. p \<notin> set (x # take j xs)) xs = find (\<lambda>p. p \<notin> set (take j xs)) xs"
      using Cons.prems(1) by (intro find_cong) auto
    with Cons Suc show ?thesis by simp
  qed
qed

lemma find_none_full: "set xs \<subseteq> set used \<Longrightarrow> find (\<lambda>p. p \<notin> set used) xs = None"
  by (auto simp add: find_None_iff)

lemma find_first_index:
  "j < length xs \<Longrightarrow> P (xs ! j) \<Longrightarrow>
   \<exists>i\<le>j. find P xs = Some (xs ! i) \<and> P (xs ! i) \<and> (\<forall>i'<i. \<not> P (xs ! i'))"
proof (induction xs arbitrary: j)
  case Nil
  then show ?case by simp
next
  case (Cons x xs)
  show ?case
  proof (cases "P x")
    case True
    then show ?thesis by (intro exI [of _ 0]) simp
  next
    case False
    with Cons.prems obtain j' where j: "j = Suc j'" by (cases j) auto
    with Cons.prems have "j' < length xs" "P (xs ! j')" by simp_all
    from Cons.IH [OF this] obtain i where
      i: "i \<le> j'" "find P xs = Some (xs ! i)" "P (xs ! i)" "\<forall>i'<i. \<not> P (xs ! i')" by blast
    show ?thesis
    proof (intro exI [of _ "Suc i"] conjI allI impI)
      show "Suc i \<le> j" using i j by simp
      show "find P (x # xs) = Some ((x # xs) ! Suc i)" using False i by simp
      show "P ((x # xs) ! Suc i)" using i by simp
      fix i' assume "i' < Suc i"
      then show "\<not> P ((x # xs) ! i')" using False i(4) by (cases i') auto
    qed
  qed
qed

lemma update_new: "k \<notin> set (map fst al) \<Longrightarrow> AList.update k v al = al @ [(k, v)]"
  by (induction al) auto

lemma rev_dropWhile_rev_keeps_head:
  assumes "\<not> P x"
  shows "\<exists>zs. rev (dropWhile P (rev (x # u))) = x # zs"
proof (cases "\<forall>y\<in>set (rev u). P y")
  case True
  then have "dropWhile P (rev u @ [x]) = [x]" using assms by (simp add: dropWhile_append)
  then show ?thesis by simp
next
  case False
  then have "dropWhile P (rev u @ [x]) = dropWhile P (rev u) @ [x]"
    by (simp add: dropWhile_append)
  then show ?thesis by simp
qed

lemma strip_idem: "strip (strip t) = strip t"
proof -
  define u where "u = dropWhile is_space t"
  have s: "strip t = rev (dropWhile is_space (rev u))" by (simp add: strip_def u_def)
  have front: "dropWhile is_space (strip t) = strip t"
  proof (cases u)
    case Nil
    then show ?thesis by (simp add: s)
  next
    case (Cons x u')
    then have "\<not> is_space x" using hd_dropWhile [of is_space t] by (simp add: u_def)
    from rev_dropWhile_rev_keeps_head [of is_space x u', OF this] obtain zs where
      "rev (dropWhile is_space (rev (x # u'))) = x # zs" by blast
    with \<open>\<not> is_space x\<close> show ?thesis by (simp add: s Cons)
  qed
  have "strip (strip t) = rev (dropWhile is_space (rev (strip t)))"
    by (simp only: strip_def [of "strip t"] front)
  also have "\<dots> = rev (dropWhile is_space (dropWhile is_space (rev u)))"
    by (simp add: s)
  also have "\<dots> = strip t" by (simp add: s)
  finally show ?thesis .
qed

lemma save_fresh:
  assumes "strip text \<noteq> []" and "strip text \<notin> set (map fst (presets s))"
  shows "fst (SpringHallUI_save_preset (Accepted text) ok s) = Saved (next_pos s)"
    and "presets (snd (SpringHallUI_save_preset (Accepted text) ok s)) =
           presets s @ [(strip text, new_preset s)]"
    and "heap (snd (SpringHallUI_save_preset (Accepted text) ok s)) =
           heap s @ [heap_get (heap s) 0, heap_get (heap s) 1, heap_get (heap s) 2]"
  using assms
  by (simp_all add: SpringHallUI_save_preset_def Let_def strip_idem update_new new_preset_def)

lemma save_duplicate:
  assumes "strip text \<noteq> []" and "strip text \<in> set (map fst (presets s))"
  shows "SpringHallUI_save_preset (Accepted text) ok s = (DuplicateName, s)"
  using assms by (simp add: SpringHallUI_save_preset_def Let_def strip_idem)

lemma occupied_append [simp]: "occupied (s\<lparr>presets := ps @ [(n, p)]\<rparr>) = map (\<lambda>(n, p). position p) ps @ [position p]"
  by (simp add: occupied_def)

lemma first_free_prefix:
  "k < 24 \<Longrightarrow> first_free_slot (take k all_slots) = Some (all_slots ! k)"
  unfolding first_free_slot_def
  by (rule find_after_prefix) (simp_all add: distinct_all_slots length_all_slots)

lemma save_all_positions:
  assumes "distinct names" and "\<forall>n\<in>set names. n \<noteq> [] \<and> strip n = n"
    and "set names \<inter> set (map fst (presets s)) = {}"
    and "occupied s = take k all_slots" and "k + length names \<le> 24"
  shows "occupied (save_all names s) = take (k + length names) all_slots \<and>
         map fst (presets (save_all names s)) = map fst (presets s) @ names"
  using assms
proof (induction names arbitrary: s k)
  case Nil
  then show ?case by (simp add: save_all_def)
next
  case (Cons n names)
  let ?s1 = "snd (SpringHallUI_save_preset (Accepted n) True s)"
  have n: "strip n \<noteq> []" "strip n \<notin> set (map fst (presets s))" "strip n = n"
    using Cons.prems(2,3) by auto
  have k: "k < 24" using Cons.prems(5) by simp
  have np: "next_pos s = all_slots ! k"
    by (simp add: next_pos_first_free Cons.prems(4) first_free_prefix [OF k])
  have ps: "presets ?s1 = presets s @ [(n, new_preset s)]"
    using save_fresh(2) [OF n(1,2), of True] n(3) by simp
  have occ: "occupied ?s1 = take (Suc k) all_slots"
    using Cons.prems(4) k
    by (simp add: occupied_def ps new_preset_def np take_Suc_conv_app_nth length_all_slots)
  have "occupied (save_all names ?s1) = take (Suc k + length names) all_slots \<and>
        map fst (presets (save_all names ?s1)) = map fst (presets ?s1) @ names"
  proof (rule Cons.IH)
    show "distinct names" using Cons.prems(1) by simp
    show "\<forall>n\<in>set names. n \<noteq> [] \<and> strip n = n" using Cons.prems(2) by simp
    show "set names \<inter> set (map fst (presets ?s1)) = {}"
      using Cons.prems(1,3) by (auto simp add: ps)
    show "occupied ?s1 = take (Suc k) all_slots" by (rule occ)
    show "Suc k + length names \<le> 24" using Cons.prems(5) by simp
  qed
  then show ?case by (simp add: save_all_def ps)
qed

lemma save_full:
  assumes "set all_slots \<subseteq> set (occupied s)"
  shows "next_pos s = ''??''"
  using assms by (simp add: next_pos_first_free first_free_slot_def find_none_full)

lemma set_delete_subset: "set (AList.delete k al) \<subseteq> set al"
  by (induction al) auto

lemma delete_frees_position:
  assumes "distinct (map (\<lambda>(n, p). position p) ps)" and "map_of ps name = Some p"
  shows "position p \<notin> set (map (\<lambda>(n, p). position p) (AList.delete name ps))"
  using assms
proof (induction ps)
  case Nil
  then show ?case by simp
next
  case (Cons a ps)
  obtain n q where a: "a = (n, q)" by (cases a)
  show ?case
  proof (cases "n = name")
    case True
    with Cons.prems a have q: "q = p" by simp
    have "position q \<notin> set (map (\<lambda>(n, p). position p) ps)"
      using Cons.prems(1) a by simp
    moreover have "set (map (\<lambda>(n, p). position p) (AList.delete name ps))
                   \<subseteq> set (map (\<lambda>(n, p). position p) ps)"
      using set_delete_subset [of name ps] by (simp only: set_map image_mono)
    ultimately have "position p \<notin> set (map (\<lambda>(n, p). position p) (AList.delete name ps))"
      using q by blast
    then show ?thesis using a True by simp
  next
    case False
    with Cons.prems a have m: "map_of ps name = Some p" by simp
    then have "(name, p) \<in> set ps" by (rule map_of_SomeD)
    then have "position p \<in> set (map (\<lambda>(n, p). position p) ps)" by force
    with Cons.prems(1) a have "position q \<noteq> position p" by auto
    moreover have "position p \<notin> set (map (\<lambda>(n, p). position p) (AList.delete name ps))"
      using Cons.IH Cons.prems(1) m by simp
    ultimately show ?thesis using a False by simp
  qed
qed

lemma next_pos_not_higher:
  assumes "j < 24" and "all_slots ! j \<notin> set (occupied s)"
  shows "\<exists>i\<le>j. next_pos s = all_slots ! i \<and> all_slots ! i \<notin> set (occupied s) \<and>
           (\<forall>i'<i. all_slots ! i' \<in> set (occupied s))"
proof -
  have "j < length all_slots" using assms(1) by (simp add: length_all_slots)
  from find_first_index [of j all_slots "\<lambda>pos. pos \<notin> set (occupied s)", OF this assms(2)]
  obtain i where "i \<le> j" "first_free_slot (occupied s) = Some (all_slots ! i)"
    "all_slots ! i \<notin> set (occupied s)" "\<forall>i'<i. all_slots ! i' \<in> set (occupied s)"
    by (auto simp add: first_free_slot_def)
  then show ?thesis by (auto simp add: next_pos_first_free)
qed

lemma map_of_snoc_new: "k \<notin> set (map fst al) \<Longrightarrow> map_of (al @ [(k, v)]) k = Some v"
  by (simp add: map_add_def map_of_eq_None_iff [THEN iffD2] split: option.splits)

lemma strip_plain:
  "t \<noteq> [] \<Longrightarrow> \<not> is_space (hd t) \<Longrightarrow> \<not> is_space (last t) \<Longrightarrow> strip t = t"
proof -
  assume t: "t \<noteq> []" and h: "\<not> is_space (hd t)" and l: "\<not> is_space (last t)"
  from t h have "dropWhile is_space t = t" by (cases t) simp_all
  moreover from t l have "dropWhile is_space (rev t) = rev t"
    by (cases "rev t") (simp_all add: last_rev [symmetric] hd_rev)
  ultimately show ?thesis by (simp add: strip_def)
qed

lemma example_names_plain: "\<forall>n\<in>set example_names. n \<noteq> [] \<and> strip n = n"
  by (simp add: example_names_def strip_plain is_space_def)

lemma example_names_distinct: "distinct example_names"
  by (simp add: example_names_def)

lemma startup_presets: "presets startup_app = []"
  by (simp add: startup_app_def build_app_def)

lemma full_store:
  "occupied (save_all example_names startup_app) = all_slots"
  "map fst (presets (save_all example_names startup_app)) = example_names"
  using save_all_positions [OF example_names_distinct example_names_plain, of startup_app 0]
  by (simp_all add: startup_presets occupied_def example_names_def all_slots_def)

text \<open>
  Claim C2, as amended. A save under a new non-empty name succeeds and gives the preset
  the position computed by \<open>next_pos\<close>: the first slot of the row-major scan
  \<open>1A, ..., 1F, 2A, ..., 4F\<close> that no preset occupies, and the marker \<open>??\<close> when all
  24 are occupied, in which case the preset is stored all the same. Saving up to 24
  distinct names into an empty store fills the slots in scan order without duplicates.
  After deleting a preset that held slot number \<open>j\<close> of the grid, when no remaining
  preset holds that slot, the next position handed out is never a later slot, and it is
  the freed slot exactly when every earlier slot is occupied. (No remaining preset holds
  the freed slot whenever no two presets share a position, by
  \<open>delete_frees_position\<close>.)
\<close>

theorem main_store_slot_assignment:
  "(strip typed \<noteq> [] \<and> strip typed \<notin> set (map fst (presets s)) \<longrightarrow>
      fst (SpringHallUI_save_preset (Accepted typed) ok s) = Saved (next_pos s) \<and>
      map_of (presets (snd (SpringHallUI_save_preset (Accepted typed) ok s))) (strip typed)
        = Some (new_preset s) \<and>
      position (new_preset s) = next_pos s \<and>
      next_pos s = (case first_free_slot (occupied s) of Some pos \<Rightarrow> pos | None \<Rightarrow> ''??'') \<and>
      (set all_slots \<subseteq> set (occupied s) \<longrightarrow> next_pos s = ''??'')) \<and>
   (distinct names \<and> (\<forall>n\<in>set names. n \<noteq> [] \<and> strip n = n) \<and> presets s0 = [] \<and>
    length names \<le> 24 \<longrightarrow>
      occupied (save_all names s0) = take (length names) all_slots \<and>
      distinct (occupied (save_all names s0)) \<and>
      map fst (presets (save_all names s0)) = names) \<and>
   (map_of (presets sd) name = Some p \<and> j < 24 \<and> position p = all_slots ! j \<and>
    all_slots ! j \<notin> set (occupied (PresetsWindow_delete (Some name) True sd)) \<longrightarrow>
      (\<exists>i\<le>j. next_pos (PresetsWindow_delete (Some name) True sd) = all_slots ! i) \<and>
      (next_pos (PresetsWindow_delete (Some name) True sd) = position p \<longleftrightarrow>
         (\<forall>i<j. all_slots ! i \<in> set (occupied (PresetsWindow_delete (Some name) True sd)))))"
proof (intro conjI impI)
  assume a: "strip typed \<noteq> [] \<and> strip typed \<notin> set (map fst (presets s))"
  show "fst (SpringHallUI_save_preset (Accepted typed) ok s) = Saved (next_pos s)"
    using a save_fresh(1) by blast
  show "map_of (presets (snd (SpringHallUI_save_preset (Accepted typed) ok s))) (strip typed)
        = Some (new_preset s)"
  proof -
    have "presets (snd (SpringHallUI_save_preset (Accepted typed) ok s)) =
            presets s @ [(strip typed, new_preset s)]"
      using a by (intro save_fresh(2)) simp_all
    moreover have "map_of (presets s @ [(strip typed, new_preset s)]) (strip typed) = Some (new_preset s)"
      using a by (intro map_of_snoc_new) simp
    ultimately show ?thesis by simp
  qed
  show "position (new_preset s) = next_pos s" by (simp add: new_preset_def)
  show "next_pos s = (case first_free_slot (occupied s) of Some pos \<Rightarrow> pos | None \<Rightarrow> ''??'')"
    by (rule next_pos_first_free)
  show "next_pos s = ''??''" if "set all_slots \<subseteq> set (occupied s)"
    using that by (rule save_full)
next
  assume b: "distinct names \<and> (\<forall>n\<in>set names. n \<noteq> [] \<and> strip n = n) \<and> presets s0 = [] \<and>
    length names \<le> 24"
  then have r: "occupied (save_all names s0) = take (length names) all_slots \<and>
         map fst (presets (save_all names s0)) = map fst (presets s0) @ names"
    using save_all_positions [of names s0 0] by (simp add: occupied_def)
  show "occupied (save_all names s0) = take (length names) all_slots" using r by simp
  show "distinct (occupied (save_all names s0))"
    using r distinct_all_slots by (simp add: distinct_take)
  show "map fst (presets (save_all names s0)) = names" using r b by simp
next
  let ?s1 = "PresetsWindow_delete (Some name) True sd"
  assume c: "map_of (presets sd) name = Some p \<and> j < 24 \<and> position p = all_slots ! j \<and>
    all_slots ! j \<notin> set (occupied ?s1)"
  then have free: "all_slots ! j \<notin> set (occupied ?s1)" by simp
  from next_pos_not_higher [OF _ free] c obtain i where
    i: "i \<le> j" "next_pos ?s1 = all_slots ! i" "all_slots ! i \<notin> set (occupied ?s1)"
       "\<forall>i'<i. all_slots ! i' \<in> set (occupied ?s1)"
    by blast
  show "\<exists>i\<le>j. next_pos ?s1 = all_slots ! i" using i by blast
  show "next_pos ?s1 = position p \<longleftrightarrow> (\<forall>i<j. all_slots ! i \<in> set (occupied ?s1))"
  proof
    assume "next_pos ?s1 = position p"
    then have "all_slots ! i = all_slots ! j" using i(2) c by simp
    moreover have "i < length all_slots" "j < length all_slots"
      using i(1) c by (simp_all add: length_all_slots)
    ultimately have "i = j" using distinct_all_slots by (simp add: nth_eq_iff_index_eq)
    then show "\<forall>i<j. all_slots ! i \<in> set (occupied ?s1)" using i(4) by simp
  next
    assume "\<forall>i<j. all_slots ! i \<in> set (occupied ?s1)"
    then have "\<not> i < j" using i(3) by blast
    with i(1) have "i = j" by simp
    with i(2) c show "next_pos ?s1 = position p" by simp
  qed
qed

lemma strip_letters:
  "strip ''A'' = ''A''" "strip ''B'' = ''B''" "strip ''C'' = ''C''" "strip ''D'' = ''D''"
  by (simp_all add: strip_plain is_space_def)

lemma abc_plain: "\<forall>n\<in>set [''A'', ''B'', ''C'']. n \<noteq> [] \<and> strip n = n"
  by (simp add: strip_letters)

lemma saved_prefixes:
  "map fst (presets (save_all [''A''] startup_app)) = [''A'']"
  "occupied (save_all [''A''] startup_app) = take 1 all_slots"
  "map fst (presets (save_all [''A'', ''B''] startup_app)) = [''A'', ''B'']"
  "map fst (presets three_saved) = [''A'', ''B'', ''C'']"
  "occupied three_saved = take 3 all_slots"
  using save_all_positions [of "[''A'']" startup_app 0]
    save_all_positions [of "[''A'', ''B'']" startup_app 0]
    save_all_positions [of "[''A'', ''B'', ''C'']" startup_app 0]
  by (simp_all add: strip_letters startup_presets occupied_def three_saved_def numeral_3_eq_3)

lemma map_of_append_found: "map_of xs k = Some v \<Longrightarrow> map_of (xs @ ys) k = Some v"
  by (simp add: map_add_Some_iff)

lemma three_saved_entry_B: "map_of (presets three_saved) ''B'' = Some example_B"
proof -
  let ?sA = "save_all [''A''] startup_app"
  let ?sB = "snd (SpringHallUI_save_preset (Accepted ''B'') True ?sA)"
  have fB: "strip ''B'' \<noteq> []" "strip ''B'' \<notin> set (map fst (presets ?sA))"
    unfolding strip_letters saved_prefixes(1) by simp_all
  have pB: "presets ?sB = presets ?sA @ [(''B'', example_B)]"
    using save_fresh(2) [OF fB, of True] by (simp only: strip_letters example_B_def)
  have sB: "?sB = save_all [''A'', ''B''] startup_app" by (simp add: save_all_def)
  have fC: "strip ''C'' \<noteq> []" "strip ''C'' \<notin> set (map fst (presets ?sB))"
    unfolding strip_letters sB saved_prefixes(3) by simp_all
  have pC: "presets (snd (SpringHallUI_save_preset (Accepted ''C'') True ?sB)) =
          presets ?sB @ [(''C'', new_preset ?sB)]"
    using save_fresh(2) [OF fC, of True] by (simp only: strip_letters)
  have t: "three_saved = snd (SpringHallUI_save_preset (Accepted ''C'') True ?sB)"
    by (simp add: three_saved_def save_all_def)
  have "''B'' \<notin> set (map fst (presets ?sA))"
    unfolding saved_prefixes(1) by simp
  then have "map_of (presets ?sA @ [(''B'', example_B)]) ''B'' = Some example_B"
    by (rule map_of_snoc_new)
  then have "map_of (presets ?sB) ''B'' = Some example_B" by (simp only: pB)
  then have "map_of (presets ?sB @ [(''C'', new_preset ?sB)]) ''B'' = Some example_B"
    by (rule map_of_append_found)
  then show ?thesis by (simp only: t pC)
qed

lemma example_B_position: "position example_B = all_slots ! 1"
proof -
  have "next_pos (save_all [''A''] startup_app) = all_slots ! 1"
    by (simp add: next_pos_first_free saved_prefixes(2) first_free_prefix)
  then show ?thesis by (simp add: example_B_def new_preset_def)
qed

lemma delete_B_occupied:
  "occupied (PresetsWindow_delete (Some ''B'') True three_saved) = [all_slots ! 0, all_slots ! 2]"
proof -
  obtain pa pb pc where ps: "presets three_saved = [(''A'', pa), (''B'', pb), (''C'', pc)]"
    using saved_prefixes(4) by (auto simp add: map_eq_Cons_conv)
  have "occupied three_saved = [position pa, position pb, position pc]"
    by (simp add: occupied_def ps)
  then have "position pa = all_slots ! 0" "position pc = all_slots ! 2"
    unfolding saved_prefixes(5) by (simp_all add: all_slots_def)
  then show ?thesis by (simp add: PresetsWindow_delete_def occupied_def ps)
qed

lemma strip_Z: "strip ''Z'' = ''Z''"
  by (simp add: strip_plain is_space_def)

lemma save_after_two_deletes:
  "map_option position
     (map_of (presets (PresetsWindow_delete (Some ''B'') True three_saved)) ''C'') = Some ''1C''"
  "fst (SpringHallUI_save_preset (Accepted ''D'') True
          (PresetsWindow_delete (Some ''C'') True (PresetsWindow_delete (Some ''B'') True three_saved)))
     = Saved ''1B''"
proof -
  let ?s2 = "PresetsWindow_delete (Some ''C'') True (PresetsWindow_delete (Some ''B'') True three_saved)"
  obtain pa pb pc where ps: "presets three_saved = [(''A'', pa), (''B'', pb), (''C'', pc)]"
    using saved_prefixes(4) by (auto simp add: map_eq_Cons_conv)
  have "occupied three_saved = [position pa, position pb, position pc]"
    by (simp add: occupied_def ps)
  then have pos: "position pa = all_slots ! 0" "position pc = all_slots ! 2"
    unfolding saved_prefixes(5) by (simp_all add: all_slots_def)
  show "map_option position
     (map_of (presets (PresetsWindow_delete (Some ''B'') True three_saved)) ''C'') = Some ''1C''"
    using pos by (simp add: PresetsWindow_delete_def ps all_slots_def)
  have occ: "occupied ?s2 = take 1 all_slots"
    using pos by (simp add: PresetsWindow_delete_def occupied_def ps all_slots_def)
  have np: "next_pos ?s2 = ''1B''"
    by (simp add: next_pos_first_free occ first_free_prefix) (simp add: all_slots_def)
  have f: "strip ''D'' \<noteq> []" "strip ''D'' \<notin> set (map fst (presets ?s2))"
    by (simp_all add: strip_letters PresetsWindow_delete_def ps)
  show "fst (SpringHallUI_save_preset (Accepted ''D'') True ?s2) = Saved ''1B''"
    using save_fresh(1) [OF f, of True] np by simp
qed

text \<open>
  Claim C2 as stated fails on the 25th save: with all 24 slots occupied, the save does
  not report an error; it succeeds and stores the preset under the position \<open>??\<close>. It
  also fails for a delete behind a hole: after saving \<open>A\<close>, \<open>B\<close>, \<open>C\<close> and deleting
  \<open>B\<close>, deleting \<open>C\<close> frees slot 1C, and the next save gets slot 1B.
\<close>

theorem save_into_full_store_is_stored:
  "occupied (save_all example_names startup_app) = all_slots \<and>
   fst (SpringHallUI_save_preset (Accepted ''Z'') True (save_all example_names startup_app))
     = Saved ''??'' \<and>
   map_option position
     (map_of (presets (snd (SpringHallUI_save_preset (Accepted ''Z'') True
                              (save_all example_names startup_app)))) ''Z'') = Some ''??'' \<and>
   map_option position
     (map_of (presets (PresetsWindow_delete (Some ''B'') True three_saved)) ''C'') = Some ''1C'' \<and>
   fst (SpringHallUI_save_preset (Accepted ''D'') True
          (PresetsWindow_delete (Some ''C'') True (PresetsWindow_delete (Some ''B'') True three_saved)))
     = Saved ''1B''"
proof -
  let ?full = "save_all example_names startup_app"
  have "''Z'' \<notin> set example_names" by (simp add: example_names_def)
  then have z: "''Z'' \<notin> set (map fst (presets ?full))" by (simp only: full_store(2)) simp
  have f1: "strip ''Z'' \<noteq> []" by (simp add: strip_Z)
  have f2: "strip ''Z'' \<notin> set (map fst (presets ?full))" unfolding strip_Z by (rule z)
  note fresh = f1 f2
  have np: "next_pos ?full = ''??''"
    by (rule save_full) (simp add: full_store(1))
  have "presets (snd (SpringHallUI_save_preset (Accepted ''Z'') True ?full)) =
          presets ?full @ [(''Z'', new_preset ?full)]"
    using save_fresh(2) [OF fresh, of True] by (simp add: strip_Z)
  moreover have "map_of (presets ?full @ [(''Z'', new_preset ?full)]) ''Z'' = Some (new_preset ?full)"
    using fresh(2) by (intro map_of_snoc_new) (simp add: strip_Z)
  ultimately have "map_option position
     (map_of (presets (snd (SpringHallUI_save_preset (Accepted ''Z'') True ?full))) ''Z'') = Some ''??''"
    by (simp add: new_preset_def np)
  moreover have "fst (SpringHallUI_save_preset (Accepted ''Z'') True ?full) = Saved ''??''"
    using save_fresh(1) [OF fresh, of True] np by simp
  ultimately show ?thesis using full_store(1) save_after_two_deletes by (intro conjI) simp_all
qed

theorem main_store_slot_assignment_witness:
  "strip ''A'' \<noteq> [] \<and> strip ''A'' \<notin> set (map fst (presets startup_app)) \<and>
   distinct example_names \<and> list_all (\<lambda>n. n \<noteq> [] \<and> strip n = n) example_names \<and>
   presets startup_app = [] \<and> length example_names \<le> 24 \<and>
   map_of (presets three_saved) ''B'' = Some example_B \<and>
   (1::nat) < 24 \<and> position example_B = all_slots ! 1 \<and>
   all_slots ! 1 \<notin> set (occupied (PresetsWindow_delete (Some ''B'') True three_saved)) \<and>
   all_slots ! 0 \<in> set (occupied (PresetsWindow_delete (Some ''B'') True three_saved)) \<and>
   fst (SpringHallUI_save_preset (Accepted ''A'') True startup_app) = Saved (next_pos startup_app) \<and>
   occupied (save_all example_names startup_app) = take (length example_names) all_slots \<and>
   next_pos (PresetsWindow_delete (Some ''B'') True three_saved) = position example_B"
proof -
  have a: "strip ''A'' \<noteq> [] \<and> strip ''A'' \<notin> set (map fst (presets startup_app))"
    by (simp add: strip_plain is_space_def startup_presets)
  have b: "distinct example_names \<and> (\<forall>n\<in>set example_names. n \<noteq> [] \<and> strip n = n) \<and>
           presets startup_app = [] \<and> length example_names \<le> 24"
    using example_names_distinct example_names_plain startup_presets
    by (simp add: example_names_def)
  have b': "list_all (\<lambda>n. n \<noteq> [] \<and> strip n = n) example_names"
    using example_names_plain by (simp only: list_all_iff)
  have c1: "all_slots ! 1 \<notin> set (occupied (PresetsWindow_delete (Some ''B'') True three_saved))"
    by (simp add: delete_B_occupied all_slots_def)
  have c2: "map_of (presets three_saved) ''B'' = Some example_B"
    by (rule three_saved_entry_B)
  have c3: "position example_B = all_slots ! 1"
    by (rule example_B_position)
  have c4: "all_slots ! 0 \<in> set (occupied (PresetsWindow_delete (Some ''B'') True three_saved))"
    by (simp add: delete_B_occupied)
  then have c5: "\<forall>i<1. all_slots ! i \<in> set (occupied (PresetsWindow_delete (Some ''B'') True three_saved))"
    by simp
  have c: "map_of (presets three_saved) ''B'' = Some example_B \<and>
           (1::nat) < 24 \<and> position example_B = all_slots ! 1 \<and>
           all_slots ! 1 \<notin> set (occupied (PresetsWindow_delete (Some ''B'') True three_saved))"
    using c1 c2 c3 by simp
  note w = main_store_slot_assignment [where typed = "''A''" and s = startup_app and ok = True
      and names = example_names and ?s0.0 = startup_app and sd = three_saved and name = "''B''"
      and p = example_B and j = 1]
  have r1: "fst (SpringHallUI_save_preset (Accepted ''A'') True startup_app) = Saved (next_pos startup_app)"
    using w a by blast
  have r2: "occupied (save_all example_names startup_app) = take (length example_names) all_slots"
    using w b by blast
  have r3: "next_pos (PresetsWindow_delete (Some ''B'') True three_saved) = position example_B"
    using w c c5 by blast
  show ?thesis using a b b' c c4 r1 r2 r3 by blast
qed

section \<open>Duplicate names, renaming and construction\<close>

lemma bank_save_declined:
  assumes "strip typed \<noteq> []" and "strip typed \<in> set (map fst (bank_presets s u))"
  shows "save_preset u (Accepted typed) False ok s = Inr (BankDeclined, s)"
  using assms by (simp add: save_preset_def Let_def)

lemma bank_save_overwrites:
  assumes "strip typed \<noteq> []" and "strip typed \<in> set (map fst (bank_presets s u))"
  shows "\<exists>s'. save_preset u (Accepted typed) True True s = Inr (BankSaved, s') \<and>
           bank_presets s' u = AList.update (strip typed) (get_knob_values u s) (bank_presets s u) \<and>
           map fst (bank_presets s' u) = map fst (bank_presets s u) \<and>
           map_of (bank_presets s' u) (strip typed) = Some (get_knob_values u s) \<and>
           presets s' = presets s"
  using assms
  by (simp add: save_preset_def save_mod_presets_def Let_def update_keys update_conv')

text \<open>
  Claim C3, as amended. In the main store, a save under a name that already exists is
  refused with the duplicate-name outcome and the state is unchanged. In a
  modulation-unit bank, a save under an existing name asks whether to overwrite: when
  the answer is no nothing changes, and when it is yes the entry of that name is
  replaced by the current knob values, the bank keeping the same names.
\<close>

theorem duplicate_name_handling:
  "(strip typed \<noteq> [] \<and> strip typed \<in> set (map fst (presets s)) \<longrightarrow>
      SpringHallUI_save_preset (Accepted typed) ok s = (DuplicateName, s)) \<and>
   (strip typed \<noteq> [] \<and> strip typed \<in> set (map fst (bank_presets s u)) \<longrightarrow>
      save_preset u (Accepted typed) False ok s = Inr (BankDeclined, s) \<and>
      (\<exists>s'. save_preset u (Accepted typed) True True s = Inr (BankSaved, s') \<and>
            bank_presets s' u = AList.update (strip typed) (get_knob_values u s) (bank_presets s u) \<and>
            map fst (bank_presets s' u) = map fst (bank_presets s u) \<and>
            map_of (bank_presets s' u) (strip typed) = Some (get_knob_values u s) \<and>
            presets s' = presets s))"
  using save_duplicate [of typed s ok] bank_save_declined [of typed s u ok]
    bank_save_overwrites [of typed s u]
  by blast

theorem duplicate_name_handling_witness:
  "strip ''A'' \<noteq> [] \<and> strip ''A'' \<in> set (map fst (presets three_saved)) \<and>
   strip ''A'' \<in> set (map fst (bank_presets example_bank Bic)) \<and>
   SpringHallUI_save_preset (Accepted ''A'') True three_saved = (DuplicateName, three_saved) \<and>
   save_preset Bic (Accepted ''A'') False True example_bank = Inr (BankDeclined, example_bank)"
proof -
  have sA: "strip ''A'' = ''A''" by (simp add: strip_plain is_space_def)
  have h1: "strip ''A'' \<noteq> []" by (simp add: sA)
  have h2: "strip ''A'' \<in> set (map fst (presets three_saved))"
    unfolding sA saved_prefixes(4) by simp
  have h3: "strip ''A'' \<in> set (map fst (bank_presets example_bank Bic))"
    unfolding sA by (simp add: example_bank_def)
  note w1 = duplicate_name_handling [where typed = "''A''" and s = three_saved and ok = True and u = Bic]
  note w2 = duplicate_name_handling [where typed = "''A''" and s = example_bank and ok = True and u = Bic]
  have r1: "SpringHallUI_save_preset (Accepted ''A'') True three_saved = (DuplicateName, three_saved)"
    using w1 h1 h2 by blast
  have r2: "save_preset Bic (Accepted ''A'') False True example_bank = Inr (BankDeclined, example_bank)"
    using w2 h1 h3 by blast
  show ?thesis using h1 h2 h3 r1 r2 by blast
qed

text \<open>
  Claim C3 as stated fails for the banks: the Bic bank holds a preset \<open>A\<close> with
  Rate 10; saving again under the name \<open>A\<close> and confirming the overwrite succeeds and
  replaces the entry by the current knob value, Rate 70.
\<close>

theorem bank_save_overwrites_existing:
  "bank_entry Bic ''A'' example_bank = Some [(''Rate'', 10)] \<and>
   outcome_of (save_preset Bic (Accepted ''A'') True True example_bank) = Some BankSaved \<and>
   Option.bind (state_of (save_preset Bic (Accepted ''A'') True True example_bank))
     (bank_entry Bic ''A'') = Some [(''Rate'', 70)]"
  by (simp add: bank_entry_def outcome_of_def state_of_def example_bank_def save_preset_def
      save_mod_presets_def get_knob_values_def Let_def strip_def is_space_def)

lemma rename_duplicate:
  assumes "strip typed \<noteq> []" and "strip typed \<noteq> old"
    and "strip typed \<in> set (map fst (presets s))"
  shows "PresetsWindow_rename (Some old) (Accepted typed) s = Inr (RenameDuplicate, s)"
  using assms by (simp add: PresetsWindow_rename_def Let_def)

lemma rename_moves:
  assumes "strip typed \<noteq> []"
    and "strip typed = old \<or> strip typed \<notin> set (map fst (presets s))"
    and "map_of (presets s) old = Some p"
  shows "\<exists>s'. PresetsWindow_rename (Some old) (Accepted typed) s = Inr (Renamed, s') \<and>
           presets s' = AList.delete old (presets s) @ [(strip typed, p)] \<and>
           map_of (presets s') (strip typed) = Some p \<and>
           (strip typed \<noteq> old \<longrightarrow> map_of (presets s') old = None) \<and>
           (\<forall>n. n \<noteq> old \<and> n \<noteq> strip typed \<longrightarrow> map_of (presets s') n = map_of (presets s) n) \<and>
           (strip typed = old \<longrightarrow> map_of (presets s') = map_of (presets s)) \<and>
           heap s' = heap s \<and> preset_file s' = preset_file s"
proof -
  let ?s' = "s\<lparr>presets := AList.update (strip typed) p (AList.delete old (presets s))\<rparr>"
  have r: "PresetsWindow_rename (Some old) (Accepted typed) s = Inr (Renamed, ?s')"
    using assms by (auto simp add: PresetsWindow_rename_def Let_def)
  have "strip typed \<notin> set (map fst (AList.delete old (presets s)))"
    using assms(2) by (auto simp add: delete_keys)
  then have app: "presets ?s' = AList.delete old (presets s) @ [(strip typed, p)]"
    by (simp add: update_new)
  have same: "map_of (presets ?s') = map_of (presets s)" if "strip typed = old"
    using that assms(3) by (auto simp add: update_conv' delete_conv' fun_eq_iff)
  have rest: "map_of (presets ?s') (strip typed) = Some p"
    "strip typed \<noteq> old \<longrightarrow> map_of (presets ?s') old = None"
    "\<forall>n. n \<noteq> old \<and> n \<noteq> strip typed \<longrightarrow> map_of (presets ?s') n = map_of (presets s) n"
    by (auto simp add: update_conv' delete_conv')
  show ?thesis
    using r app same rest by (intro exI [of _ ?s']) simp
qed

text \<open>
  Claim C8, as amended. A rename to a name that another preset already has is refused
  with the duplicate-name outcome and changes nothing. Otherwise the entry is removed
  and inserted again at the end of the dictionary under the new name, with the same
  preset record (position, values and modulation references; the heap they point into
  is untouched), and every other entry is kept in its place. This also happens when the
  new name equals the old one: every name keeps its preset, but the entry moves to the
  end of the dictionary's order. The rename changes the store in memory only: the preset
  file is left as it was.
\<close>

theorem rename_in_memory_only:
  "(strip typed \<noteq> [] \<and> strip typed \<noteq> old \<and> strip typed \<in> set (map fst (presets s)) \<longrightarrow>
      PresetsWindow_rename (Some old) (Accepted typed) s = Inr (RenameDuplicate, s)) \<and>
   (strip typed \<noteq> [] \<and> (strip typed = old \<or> strip typed \<notin> set (map fst (presets s))) \<and>
    map_of (presets s) old = Some p \<longrightarrow>
      (\<exists>s'. PresetsWindow_rename (Some old) (Accepted typed) s = Inr (Renamed, s') \<and>
            presets s' = AList.delete old (presets s) @ [(strip typed, p)] \<and>
            map_of (presets s') (strip typed) = Some p \<and>
            (strip typed \<noteq> old \<longrightarrow> map_of (presets s') old = None) \<and>
            (\<forall>n. n \<noteq> old \<and> n \<noteq> strip typed \<longrightarrow> map_of (presets s') n = map_of (presets s) n) \<and>
            (strip typed = old \<longrightarrow> map_of (presets s') = map_of (presets s)) \<and>
            heap s' = heap s \<and> preset_file s' = preset_file s))"
  using rename_duplicate [of typed old s] rename_moves [of typed old s p]
  by blast

theorem rename_in_memory_only_witness:
  "strip ''A'' \<noteq> [] \<and> strip ''A'' \<noteq> ''B'' \<and> strip ''A'' \<in> set (map fst (presets three_saved)) \<and>
   strip ''D'' \<noteq> [] \<and> (strip ''D'' = ''B'' \<or> strip ''D'' \<notin> set (map fst (presets three_saved))) \<and>
   map_of (presets three_saved) ''B'' = Some example_B \<and>
   PresetsWindow_rename (Some ''B'') (Accepted ''A'') three_saved = Inr (RenameDuplicate, three_saved) \<and>
   (\<exists>s'. PresetsWindow_rename (Some ''B'') (Accepted ''D'') three_saved = Inr (Renamed, s') \<and>
         map_of (presets s') (strip ''D'') = Some example_B \<and>
         preset_file s' = preset_file three_saved) \<and>
   (\<exists>s'. PresetsWindow_rename (Some ''B'') (Accepted ''B'') three_saved = Inr (Renamed, s') \<and>
         presets s' = AList.delete ''B'' (presets three_saved) @ [(''B'', example_B)] \<and>
         store_names s' = [''A'', ''C'', ''B''])"
proof -
  have sA: "strip ''A'' = ''A''" and sD: "strip ''D'' = ''D''"
    by (simp_all add: strip_plain is_space_def)
  have h1: "strip ''A'' \<noteq> [] \<and> strip ''A'' \<noteq> ''B'' \<and> strip ''A'' \<in> set (map fst (presets three_saved))"
    unfolding sA saved_prefixes(4) by simp
  have h2: "strip ''D'' \<noteq> [] \<and> (strip ''D'' = ''B'' \<or> strip ''D'' \<notin> set (map fst (presets three_saved)))"
    unfolding sD saved_prefixes(4) by simp
  have h3: "map_of (presets three_saved) ''B'' = Some example_B"
    by (rule three_saved_entry_B)
  note w1 = rename_in_memory_only [where typed = "''A''" and old = "''B''" and s = three_saved]
  note w2 = rename_in_memory_only [where typed = "''D''" and old = "''B''" and s = three_saved
      and p = example_B]
  have r1: "PresetsWindow_rename (Some ''B'') (Accepted ''A'') three_saved = Inr (RenameDuplicate, three_saved)"
    using w1 h1 by blast
  have r2: "\<exists>s'. PresetsWindow_rename (Some ''B'') (Accepted ''D'') three_saved = Inr (Renamed, s') \<and>
         map_of (presets s') (strip ''D'') = Some example_B \<and>
         preset_file s' = preset_file three_saved"
    using w2 h2 h3 by blast
  have sB: "strip ''B'' = ''B''" by (simp add: strip_plain is_space_def)
  have h4: "strip ''B'' \<noteq> [] \<and> (strip ''B'' = ''B'' \<or> strip ''B'' \<notin> set (map fst (presets three_saved)))"
    by (simp add: sB)
  note w3 = rename_in_memory_only [where typed = "''B''" and old = "''B''" and s = three_saved
      and p = example_B]
  have k: "map fst (AList.delete ''B'' (presets three_saved) @ [(''B'', example_B)]) = [''A'', ''C'', ''B'']"
    by (simp add: delete_keys saved_prefixes(4))
  have "\<exists>s'. PresetsWindow_rename (Some ''B'') (Accepted ''B'') three_saved = Inr (Renamed, s') \<and>
         presets s' = AList.delete ''B'' (presets three_saved) @ [(strip ''B'', example_B)]"
    using w3 h4 h3 by blast
  then have r3: "\<exists>s'. PresetsWindow_rename (Some ''B'') (Accepted ''B'') three_saved = Inr (Renamed, s') \<and>
         presets s' = AList.delete ''B'' (presets three_saved) @ [(''B'', example_B)] \<and>
         store_names s' = [''A'', ''C'', ''B'']"
    using k by (auto simp add: sB store_names_def)
  show ?thesis using h1 h2 h3 r1 r2 r3 by blast
qed

text \<open>
  Claim C7 fails for the banks: when \<open>presets_bic.json\<close> exists and cannot be parsed,
  construction ends with the decoding error instead of a window. The main store's own
  load, a few lines later, does what the claim says: an unparseable \<open>presets.json\<close>
  is reported and the window starts with an empty store.
\<close>

theorem init_bank_malformed_raises:
  "init bic_unparseable = Inl JSONDecodeError \<and>
   init main_unparseable =
     Inr (build_app main_unparseable [] [] [] [] initial_heap [''Preset-file read error'']) \<and>
   init no_files = Inr startup_app"
  by (simp add: init_def load_presets_def bic_unparseable_def main_unparseable_def no_files_def
      startup_app_def)

lemma serialise_keys: "map fst (serialise h ps) = map fst ps"
  by (induction ps) (auto simp add: serialise_def)

lemma save_writes_file:
  assumes "strip typed \<noteq> []" and "strip typed \<notin> set (map fst (presets s))"
  shows "file_in_sync (snd (SpringHallUI_save_preset (Accepted typed) True s))"
  using assms
  by (simp add: SpringHallUI_save_preset_def Let_def strip_idem file_in_sync_def)

lemma three_saved_in_sync: "file_in_sync three_saved"
proof -
  have sC: "strip ''C'' = ''C''" by (simp add: strip_plain is_space_def)
  have eq: "three_saved = snd (SpringHallUI_save_preset (Accepted ''C'') True (save_all [''A'', ''B''] startup_app))"
    by (simp add: three_saved_def save_all_def)
  have f: "strip ''C'' \<notin> set (map fst (presets (save_all [''A'', ''B''] startup_app)))"
    unfolding sC saved_prefixes(3) by simp
  have n: "strip ''C'' \<noteq> []" by (simp add: sC)
  show ?thesis unfolding eq by (rule save_writes_file [OF n f])
qed

lemma rename_A_to_A:
  "PresetsWindow_rename (Some ''A'') (Accepted ''A'') three_saved =
     Inr (Renamed, three_saved\<lparr>presets := AList.update ''A'' (the (map_of (presets three_saved) ''A''))
                                              (AList.delete ''A'' (presets three_saved))\<rparr>)"
proof -
  have sA: "strip ''A'' = ''A''" by (simp add: strip_plain is_space_def)
  obtain pa pb pc where ps: "presets three_saved = [(''A'', pa), (''B'', pb), (''C'', pc)]"
    using saved_prefixes(4) by (auto simp add: map_eq_Cons_conv)
  show ?thesis by (simp add: PresetsWindow_rename_def sA Let_def ps)
qed

lemma rename_A_to_A_order:
  "store_names three_saved = [''A'', ''B'', ''C'']"
  "map_option store_names (state_of (PresetsWindow_rename (Some ''A'') (Accepted ''A'') three_saved))
     = Some [''B'', ''C'', ''A'']"
  by (simp_all add: rename_A_to_A state_of_def store_names_def saved_prefixes(4) update_keys delete_keys)

lemma rename_B_to_D:
  "PresetsWindow_rename (Some ''B'') (Accepted ''D'') three_saved =
     Inr (Renamed, three_saved\<lparr>presets := AList.update ''D'' example_B (AList.delete ''B'' (presets three_saved))\<rparr>)"
proof -
  have sD: "strip ''D'' = ''D''" by (simp add: strip_plain is_space_def)
  have k: "''D'' \<notin> set (map fst (presets three_saved))"
    unfolding saved_prefixes(4) by simp
  have b: "map_of (presets three_saved) ''B'' = Some example_B"
    by (rule three_saved_entry_B)
  show ?thesis using k b by (simp add: PresetsWindow_rename_def sD Let_def)
qed

text \<open>
  Claim C8 as stated fails on persistence: after three saves the preset file holds the
  store; renaming \<open>B\<close> to \<open>D\<close> succeeds, and afterwards the file no longer agrees with
  the store, because the rename wrote nothing. It also fails on the rename to the same
  name, which is not a no-op: renaming \<open>A\<close> to \<open>A\<close> in the store \<open>A\<close>, \<open>B\<close>, \<open>C\<close>
  leaves the store in the order \<open>B\<close>, \<open>C\<close>, \<open>A\<close>.
\<close>

theorem rename_does_not_persist:
  "file_in_sync three_saved \<and>
   outcome_of (PresetsWindow_rename (Some ''B'') (Accepted ''D'') three_saved) = Some Renamed \<and>
   map_option file_in_sync (state_of (PresetsWindow_rename (Some ''B'') (Accepted ''D'') three_saved))
     = Some False \<and>
   store_names three_saved = [''A'', ''B'', ''C''] \<and>
   map_option store_names (state_of (PresetsWindow_rename (Some ''A'') (Accepted ''A'') three_saved))
     = Some [''B'', ''C'', ''A'']"
proof -
  let ?ps' = "AList.update ''D'' example_B (AList.delete ''B'' (presets three_saved))"
  have k1: "map fst (serialise (heap three_saved) (presets three_saved)) = [''A'', ''B'', ''C'']"
    by (simp only: serialise_keys saved_prefixes(4))
  have "map fst ?ps' = [''A'', ''C'', ''D'']"
    by (simp add: update_keys delete_keys saved_prefixes(4))
  then have k2: "map fst (serialise (heap three_saved) ?ps') = [''A'', ''C'', ''D'']"
    by (simp only: serialise_keys)
  have "serialise (heap three_saved) (presets three_saved) \<noteq> serialise (heap three_saved) ?ps'"
  proof
    assume "serialise (heap three_saved) (presets three_saved) = serialise (heap three_saved) ?ps'"
    then have "[''A'', ''B'', ''C''] = [''A'', ''C'', ''D'']" using k1 k2 by simp
    then show False by simp
  qed
  then have "\<not> file_in_sync (three_saved\<lparr>presets := ?ps'\<rparr>)"
    using three_saved_in_sync by (simp add: file_in_sync_def)
  then show ?thesis
    using three_saved_in_sync rename_A_to_A_order
    by (simp add: rename_B_to_D outcome_of_def state_of_def)
qed

section \<open>Loading a preset and the saved modulation maps\<close>

lemma fine_after_set: "is_fine_slider w \<Longrightarrow> is_fine_slider (w\<lparr>wvalue := bound w v\<rparr>)"
  by (simp add: is_fine_slider_def bound_def)

lemma fine_bound_value: "is_fine_slider w \<Longrightarrow> bound w v = max 0 (min 1000 v)"
  by (simp add: is_fine_slider_def bound_def)

lemma set_sliders_effect:
  assumes "\<forall>n\<in>set ns. \<exists>w. slider_widget_map g n = Some w \<and> is_fine_slider w"
    and "\<forall>n\<in>set ns. c_int (int_of_rat (dict_get vals n 0 * 10))"
  shows "\<exists>g'. set_sliders (Suc (Suc k)) vals ns g = Result g' \<and>
           (\<forall>n\<in>set ns. slider_value n g' = Some (max 0 (min 1000 (int_of_rat (dict_get vals n 0 * 10))))) \<and>
           (\<forall>n. n \<notin> set ns \<longrightarrow> slider_widget_map g' n = slider_widget_map g n)"
  using assms
proof (induction ns arbitrary: g)
  case Nil
  then show ?case by simp
next
  case (Cons a ns)
  let ?v = "int_of_rat (dict_get vals a 0 * 10)"
  from Cons.prems(1) obtain w where w: "slider_widget_map g a = Some w" "is_fine_slider w" by auto
  have cv: "c_int ?v" using Cons.prems(2) by simp
  have cb: "c_int (bound w ?v)" using fine_bound [OF w(2), of ?v] by (intro c_int_small) simp_all
  from setValue_slider_effect [OF w(1) cv cb, of k]
  obtain g1 where g1: "setValue (Suc (Suc k)) (SliderMap a) ?v g = Result g1"
    "slider_widget_map g1 = (slider_widget_map g)(a \<mapsto> w\<lparr>wvalue := bound w ?v\<rparr>)"
    by blast
  have p1: "\<forall>n\<in>set ns. \<exists>w. slider_widget_map g1 n = Some w \<and> is_fine_slider w"
    using Cons.prems(1) g1(2) fine_after_set [OF w(2)] by auto
  have p2: "\<forall>n\<in>set ns. c_int (int_of_rat (dict_get vals n 0 * 10))"
    using Cons.prems(2) by simp
  from Cons.IH [OF p1 p2] obtain g' where g':
    "set_sliders (Suc (Suc k)) vals ns g1 = Result g'"
    "\<forall>n\<in>set ns. slider_value n g' = Some (max 0 (min 1000 (int_of_rat (dict_get vals n 0 * 10))))"
    "\<forall>n. n \<notin> set ns \<longrightarrow> slider_widget_map g' n = slider_widget_map g1 n"
    by blast
  have run: "set_sliders (Suc (Suc k)) vals (a # ns) g = Result g'"
    using g1(1) g'(1) by (simp del: setValue.simps)
  have head: "slider_value a g' = Some (max 0 (min 1000 ?v))"
  proof (cases "a \<in> set ns")
    case True
    then show ?thesis using g'(2) by simp
  next
    case False
    then have "slider_widget_map g' a = Some (w\<lparr>wvalue := bound w ?v\<rparr>)"
      using g'(3) g1(2) by simp
    then show ?thesis using fine_bound_value [OF w(2), of ?v] by (simp add: slider_value_def)
  qed
  have vals: "\<forall>n\<in>set (a # ns). slider_value n g' =
      Some (max 0 (min 1000 (int_of_rat (dict_get vals n 0 * 10))))"
    using head g'(2) by simp
  have others: "\<forall>n. n \<notin> set (a # ns) \<longrightarrow> slider_widget_map g' n = slider_widget_map g n"
    using g'(3) g1(2) by simp
  from run vals others show ?case by blast
qed

lemma set_sliders_overflow:
  assumes "\<forall>n\<in>set ns. \<exists>w. slider_widget_map g n = Some w \<and> is_fine_slider w"
    and "\<exists>n\<in>set ns. \<not> c_int (int_of_rat (dict_get vals n 0 * 10))"
  shows "set_sliders (Suc (Suc k)) vals ns g = Raised OverflowError"
  using assms
proof (induction ns arbitrary: g)
  case Nil
  then show ?case by simp
next
  case (Cons a ns)
  let ?v = "int_of_rat (dict_get vals a 0 * 10)"
  show ?case
  proof (cases "c_int ?v")
    case False
    then show ?thesis by simp
  next
    case True
    from Cons.prems(1) obtain w where w: "slider_widget_map g a = Some w" "is_fine_slider w" by auto
    have cb: "c_int (bound w ?v)" using fine_bound [OF w(2), of ?v] by (intro c_int_small) simp_all
    from setValue_slider_effect [OF w(1) True cb, of k]
    obtain g1 where g1: "setValue (Suc (Suc k)) (SliderMap a) ?v g = Result g1"
      "slider_widget_map g1 = (slider_widget_map g)(a \<mapsto> w\<lparr>wvalue := bound w ?v\<rparr>)"
      by blast
    have p1: "\<forall>n\<in>set ns. \<exists>w. slider_widget_map g1 n = Some w \<and> is_fine_slider w"
      using Cons.prems(1) g1(2) fine_after_set [OF w(2)] by auto
    have p2: "\<exists>n\<in>set ns. \<not> c_int (int_of_rat (dict_get vals n 0 * 10))"
      using Cons.prems(2) True by auto
    from Cons.IH [OF p1 p2] g1(1) show ?thesis by (simp del: setValue.simps)
  qed
qed

lemma load_absent:
  "map_of (presets s) name = None \<Longrightarrow> SpringHallUI_load_preset fuel name s = Result s"
  by (simp add: SpringHallUI_load_preset_def)

lemma heap_get_update:
  "heap_get (h[i := x]) a = (if a = i \<and> i < length h then x else heap_get h a)"
  by (simp add: heap_get_def)

lemma sub_map_update:
  assumes "list_all (\<lambda>(k, a). 3 \<le> a) m" and "i < 3"
  shows "sub_map (h[i := x]) m k = sub_map h m k"
proof (cases "map_of m k")
  case None
  then show ?thesis by (simp add: sub_map_def)
next
  case (Some a)
  then have "(k, a) \<in> set m" by (rule map_of_SomeD)
  then have "3 \<le> a" using assms(1) by (auto simp add: list_all_iff)
  then show ?thesis using Some assms(2) by (simp add: sub_map_def heap_get_update)
qed

lemma apply_modulation_live:
  assumes "3 \<le> length h" and "list_all (\<lambda>(k, a). 3 \<le> a) m"
  shows "heap_get (apply_modulation m h) (value_map u) =
           copy_into (sub_map h m (unit_key u)) (heap_get h (value_map u))"
proof -
  have l: "h \<noteq> []" "1 < length h" "2 < length h" using assms(1) by auto
  show ?thesis
    using l assms(2)
    by (cases u) (auto simp add: apply_modulation_def Let_def heap_get_update sub_map_update unit_key_def)
qed

lemma sliders_fineD:
  "sliders_fine s \<Longrightarrow> \<forall>n\<in>set (slider_widgets s). \<exists>w. slider_widget_map (gui s) n = Some w \<and> is_fine_slider w"
  by (auto simp add: sliders_fine_def list_all_iff split: option.splits)

lemma load_effect:
  assumes "map_of (presets s) name = Some data" and "2 \<le> fuel"
    and "sliders_fine s" and "\<forall>u. unit_knobs s u = None" and "values_fit data s"
  shows "\<exists>s'. SpringHallUI_load_preset fuel name s = Result s' \<and> presets s' = presets s \<and>
           preset_file s' = preset_file s \<and>
           current_preset_name s' = name \<and> current_preset_position s' = position data \<and>
           (\<forall>n\<in>set (slider_widgets s).
              slider_value n (gui s') = Some (max 0 (min 1000 (slider_target data n)))) \<and>
           heap s' = apply_modulation (modulation data) (heap s) \<and>
           (3 \<le> length (heap s) \<and> detached_refs data \<longrightarrow>
              (\<forall>u. live_map u s' =
                     copy_into (sub_map (heap s) (modulation data) (unit_key u)) (live_map u s)))"
proof -
  from assms(2) obtain k where fuel: "fuel = Suc (Suc k)"
    by (metis Suc_le_D numeral_2_eq_2 Suc_le_mono)
  have fit: "\<forall>n\<in>set (slider_widgets s). c_int (int_of_rat (dict_get (pvalues data) n 0 * 10))"
    using assms(5) by (simp add: values_fit_def slider_target_def list_all_iff)
  from set_sliders_effect [OF sliders_fineD [OF assms(3)] fit, of k] obtain g where
    g: "set_sliders (Suc (Suc k)) (pvalues data) (slider_widgets s) (gui s) = Result g"
    "\<forall>n\<in>set (slider_widgets s). slider_value n g = Some (max 0 (min 1000 (slider_target data n)))"
    by (auto simp add: slider_target_def)
  define s' where "s' = select_loaded (position data)
      (name, s\<lparr>gui := g, heap := apply_modulation (modulation data) (heap s)\<rparr>)"
  have run: "SpringHallUI_load_preset fuel name s = Result s'"
    using assms(1,4) g(1)
    by (simp add: SpringHallUI_load_preset_def fuel refresh_unit_knobs_def s'_def
        del: setValue.simps set_sliders.simps)
  have f: "presets s' = presets s" "preset_file s' = preset_file s" "current_preset_name s' = name"
    "current_preset_position s' = position data" "gui s' = g"
    "heap s' = apply_modulation (modulation data) (heap s)"
    by (simp_all add: s'_def select_loaded_def)
  have live: "\<forall>u. live_map u s' =
      copy_into (sub_map (heap s) (modulation data) (unit_key u)) (live_map u s)"
    if "3 \<le> length (heap s) \<and> detached_refs data"
    using that apply_modulation_live [of "heap s" "modulation data"]
    by (simp add: live_map_def f(6) detached_refs_def)
  show ?thesis using run f g(2) live by (intro exI [of _ s']) simp
qed

lemma load_overflow:
  assumes "map_of (presets s) name = Some data" and "2 \<le> fuel"
    and "sliders_fine s" and "\<not> values_fit data s"
  shows "SpringHallUI_load_preset fuel name s = Raised OverflowError"
proof -
  from assms(2) obtain k where fuel: "fuel = Suc (Suc k)"
    by (metis Suc_le_D numeral_2_eq_2 Suc_le_mono)
  have "\<exists>n\<in>set (slider_widgets s). \<not> c_int (int_of_rat (dict_get (pvalues data) n 0 * 10))"
    using assms(4) by (simp add: values_fit_def slider_target_def list_all_iff)
  from set_sliders_overflow [OF sliders_fineD [OF assms(3)] this, of k]
  show ?thesis
    using assms(1)
    by (simp add: SpringHallUI_load_preset_def fuel del: setValue.simps set_sliders.simps)
qed

lemma save_frame:
  "gui (snd (SpringHallUI_save_preset dlg ok s)) = gui s"
  "slider_widgets (snd (SpringHallUI_save_preset dlg ok s)) = slider_widgets s"
  "unit_knobs (snd (SpringHallUI_save_preset dlg ok s)) = unit_knobs s"
  by (simp_all add: SpringHallUI_save_preset_def Let_def split: dialog_result.splits)

lemma save_all_frame:
  "gui (save_all names s) = gui s \<and> slider_widgets (save_all names s) = slider_widgets s \<and>
   unit_knobs (save_all names s) = unit_knobs s"
  by (induction names arbitrary: s) (simp_all add: save_all_def save_frame)

lemma initial_sliders_fine:
  "gui s = initial_gui \<Longrightarrow> slider_widgets s = map fst SLIDERS \<Longrightarrow> sliders_fine s"
  by (simp add: sliders_fine_def SLIDERS_def initial_sliders)

lemma startup_frame:
  "gui startup_app = initial_gui" "slider_widgets startup_app = map fst SLIDERS"
  by (simp_all add: startup_app_def build_app_def)

lemma startup_no_knobs: "\<forall>u. unit_knobs startup_app u = None"
  by (simp add: startup_app_def build_app_def)

lemma save_sets_current:
  assumes "strip typed \<noteq> []" and "strip typed \<notin> set (map fst (presets s))"
  shows "current_preset_name (snd (SpringHallUI_save_preset (Accepted typed) ok s)) = strip typed"
  using assms by (simp add: SpringHallUI_save_preset_def Let_def strip_idem)

lemma three_saved_current: "current_preset_name three_saved = ''C''"
proof -
  let ?sB = "save_all [''A'', ''B''] startup_app"
  have eq: "three_saved = snd (SpringHallUI_save_preset (Accepted ''C'') True ?sB)"
    by (simp add: three_saved_def save_all_def)
  have f: "strip ''C'' \<notin> set (map fst (presets ?sB))"
    unfolding strip_letters saved_prefixes(3) by simp
  have n: "strip ''C'' \<noteq> []" by (simp add: strip_letters)
  show ?thesis unfolding eq using save_sets_current [OF n f, of True] by (simp add: strip_letters)
qed


lemma three_saved_frame:
  "gui three_saved = initial_gui" "slider_widgets three_saved = map fst SLIDERS"
  "\<forall>u. unit_knobs three_saved u = None"
  using startup_frame startup_no_knobs save_all_frame [of "[''A'', ''B'', ''C'']" startup_app]
  by (simp_all add: three_saved_def)

lemma example_B_values:
  "pvalues example_B =
     [(''DECAY'', 50), (''DAMPING'', 127 / 5), (''WET/DRY'', 53 / 2), (''LEVEL'', 252 / 5),
      (''WEIGHT'', 403 / 5), (''DIFFUSION'', 50)]"
proof -
  let ?sA = "save_all [''A''] startup_app"
  have "gui ?sA = initial_gui" "slider_widgets ?sA = map fst SLIDERS"
    using save_all_frame [of "[''A'']" startup_app] startup_frame by simp_all
  then show ?thesis
    by (simp add: example_B_def new_preset_def slider_raw_def SLIDERS_def initial_sliders)
qed

lemma example_B_fits: "values_fit example_B three_saved"
  by (simp add: values_fit_def slider_target_def three_saved_frame SLIDERS_def example_B_values
      dict_get_def c_int_def)

lemma restored_init:
  "init stored_files =
     Inr (build_app stored_files [] [] [] [(''S'', stored_S), (''H'', stored_H)]
            (initial_heap @ [[], [(''Rate'', 30)], []]) [''Loaded presets from disk''])"
  by (simp add: init_def load_presets_def stored_files_def no_files_def stored_doc_def
      stored_S_def stored_H_def initial_heap_def eval_nat_numeral)

lemma restored_facts:
  "presets restored_app = [(''S'', stored_S), (''H'', stored_H)]"
  "heap restored_app = initial_heap @ [[], [(''Rate'', 30)], []]"
  "gui restored_app = initial_gui"
  "slider_widgets restored_app = map fst SLIDERS"
  "\<forall>u. unit_knobs restored_app u = None"
  by (simp_all add: restored_app_def restored_init build_app_def)

lemma restored_live:
  "live_map Bic restored_app = [(''Rate'', 0), (''Depth'', 0), (''Tone'', 0), (''Mix'', 0)]"
  "copy_into (sub_map (heap restored_app) (modulation stored_S) (unit_key Bic)) (live_map Bic restored_app)
     = [(''Rate'', 30), (''Depth'', 0), (''Tone'', 0), (''Mix'', 0)]"
  by (simp_all add: live_map_def restored_facts initial_heap_def heap_get_def sub_map_def stored_S_def
      unit_key_def copy_into_def)

lemma restored_targets:
  "slider_target stored_S ''DECAY'' = 700" "slider_target stored_S ''WEIGHT'' = 0"
  "values_fit stored_S restored_app" "\<not> values_fit stored_H restored_app"
  by (simp_all add: slider_target_def stored_S_def stored_H_def dict_get_def values_fit_def
      restored_facts SLIDERS_def c_int_def int_of_rat_def)

text \<open>
  Claim C9, as amended. Loading a name that is not in the store does nothing. Loading
  a stored preset, before the modulation page has been opened and with the sliders of
  the main page in their range 0..1000, depends on the stored values: when each of
  them, times ten and truncated, fits a C \<open>int\<close>, the load succeeds; it leaves the
  store and the preset file as they are, sets every slider of the main page to that
  number bounded to 0..1000, copies the preset's modulation sub-maps into the live maps
  key by key, and makes the loaded preset the currently selected one (name and
  position). Otherwise the load ends with \<open>OverflowError\<close>.
\<close>

theorem load_selects_preset:
  "(map_of (presets s) name = None \<longrightarrow> SpringHallUI_load_preset fuel name s = Result s) \<and>
   (map_of (presets s) name = Some data \<and> 2 \<le> fuel \<and> sliders_fine s \<and>
    (\<forall>u. unit_knobs s u = None) \<and> values_fit data s \<longrightarrow>
      (\<exists>s'. SpringHallUI_load_preset fuel name s = Result s' \<and> presets s' = presets s \<and>
            preset_file s' = preset_file s \<and>
            current_preset_name s' = name \<and> current_preset_position s' = position data \<and>
            (\<forall>n\<in>set (slider_widgets s).
               slider_value n (gui s') = Some (max 0 (min 1000 (slider_target data n)))) \<and>
            heap s' = apply_modulation (modulation data) (heap s) \<and>
            (3 \<le> length (heap s) \<and> detached_refs data \<longrightarrow>
               (\<forall>u. live_map u s' =
                      copy_into (sub_map (heap s) (modulation data) (unit_key u)) (live_map u s))))) \<and>
   (map_of (presets s) name = Some data \<and> 2 \<le> fuel \<and> sliders_fine s \<and> \<not> values_fit data s \<longrightarrow>
      SpringHallUI_load_preset fuel name s = Raised OverflowError)"
  using load_absent [of s name fuel] load_effect [of s name data fuel]
    load_overflow [of s name data fuel]
  by blast

theorem load_selects_preset_witness:
  "map_of (presets restored_app) ''Z'' = None \<and>
   map_of (presets restored_app) ''S'' = Some stored_S \<and> (2::nat) \<le> 2 \<and>
   sliders_fine restored_app \<and> (\<forall>u. unit_knobs restored_app u = None) \<and>
   values_fit stored_S restored_app \<and> 3 \<le> length (heap restored_app) \<and> detached_refs stored_S \<and>
   map_of (presets restored_app) ''H'' = Some stored_H \<and> \<not> values_fit stored_H restored_app \<and>
   SpringHallUI_load_preset 2 ''Z'' restored_app = Result restored_app \<and>
   slider_value ''DECAY'' (gui restored_app) = Some 500 \<and>
   slider_value ''WEIGHT'' (gui restored_app) = Some 806 \<and>
   live_map Bic restored_app = [(''Rate'', 0), (''Depth'', 0), (''Tone'', 0), (''Mix'', 0)] \<and>
   (\<exists>s'. SpringHallUI_load_preset 2 ''S'' restored_app = Result s' \<and>
         presets s' = presets restored_app \<and>
         current_preset_name s' = ''S'' \<and> current_preset_position s' = ''1A'' \<and>
         slider_value ''DECAY'' (gui s') = Some 700 \<and>
         slider_value ''WEIGHT'' (gui s') = Some 0 \<and>
         live_map Bic s' = [(''Rate'', 30), (''Depth'', 0), (''Tone'', 0), (''Mix'', 0)]) \<and>
   SpringHallUI_load_preset 2 ''H'' restored_app = Raised OverflowError"
proof -
  have h0: "map_of (presets restored_app) ''Z'' = None" by (simp add: restored_facts)
  have h1: "map_of (presets restored_app) ''S'' = Some stored_S" by (simp add: restored_facts)
  have h2: "(2::nat) \<le> 2" by simp
  have h3: "sliders_fine restored_app"
    by (rule initial_sliders_fine) (simp_all add: restored_facts)
  note h4 = restored_facts(5)
  note h5 = restored_targets(3)
  have h6: "3 \<le> length (heap restored_app)" by (simp add: restored_facts)
  have h7: "detached_refs stored_S" by (simp add: detached_refs_def stored_S_def)
  have h8: "map_of (presets restored_app) ''H'' = Some stored_H" by (simp add: restored_facts)
  note h9 = restored_targets(4)
  have before: "slider_value ''DECAY'' (gui restored_app) = Some 500"
    "slider_value ''WEIGHT'' (gui restored_app) = Some 806"
    by (simp_all add: slider_value_def restored_facts initial_sliders)
  have names: "''DECAY'' \<in> set (slider_widgets restored_app)" "''WEIGHT'' \<in> set (slider_widgets restored_app)"
    by (simp_all add: restored_facts SLIDERS_def)
  note w0 = load_selects_preset [where s = restored_app and name = "''Z''" and fuel = 2]
  note w1 = load_selects_preset [where s = restored_app and name = "''S''" and fuel = 2
      and data = stored_S]
  note w2 = load_selects_preset [where s = restored_app and name = "''H''" and fuel = 2
      and data = stored_H]
  have r0: "SpringHallUI_load_preset 2 ''Z'' restored_app = Result restored_app"
    using w0 h0 by blast
  from w1 h1 h2 h3 h4 h5 h6 h7 obtain s' where s':
    "SpringHallUI_load_preset 2 ''S'' restored_app = Result s'" "presets s' = presets restored_app"
    "current_preset_name s' = ''S''" "current_preset_position s' = position stored_S"
    "\<forall>n\<in>set (slider_widgets restored_app).
        slider_value n (gui s') = Some (max 0 (min 1000 (slider_target stored_S n)))"
    "\<forall>u. live_map u s' =
        copy_into (sub_map (heap restored_app) (modulation stored_S) (unit_key u)) (live_map u restored_app)"
    by blast
  have v: "slider_value ''DECAY'' (gui s') = Some 700" "slider_value ''WEIGHT'' (gui s') = Some 0"
    using s'(5) names by (simp_all add: restored_targets)
  have l: "live_map Bic s' = [(''Rate'', 30), (''Depth'', 0), (''Tone'', 0), (''Mix'', 0)]"
    using s'(6) restored_live(2) by simp
  have p: "current_preset_position s' = ''1A''" using s'(4) by (simp add: stored_S_def)
  have r1: "\<exists>s'. SpringHallUI_load_preset 2 ''S'' restored_app = Result s' \<and>
         presets s' = presets restored_app \<and>
         current_preset_name s' = ''S'' \<and> current_preset_position s' = ''1A'' \<and>
         slider_value ''DECAY'' (gui s') = Some 700 \<and>
         slider_value ''WEIGHT'' (gui s') = Some 0 \<and>
         live_map Bic s' = [(''Rate'', 30), (''Depth'', 0), (''Tone'', 0), (''Mix'', 0)]"
    using s'(1,2,3) p v l by blast
  have r2: "SpringHallUI_load_preset 2 ''H'' restored_app = Raised OverflowError"
    using w2 h8 h2 h3 h9 by blast
  show ?thesis
    using h0 h1 h2 h3 h4 h5 h6 h7 h8 h9 r0 before restored_live(1) r1 r2 by blast
qed

text \<open>
  Claim C9 as stated fails: after saving \<open>A\<close>, \<open>B\<close> and \<open>C\<close> the selected preset is
  \<open>C\<close>; loading \<open>B\<close> makes \<open>B\<close> the selected preset.
\<close>

theorem load_changes_selection:
  "current_preset_name three_saved = ''C'' \<and>
   selected_after (SpringHallUI_load_preset 2 ''B'' three_saved) = Some ''B''"
proof -
  have "(2::nat) \<le> 2" by simp
  moreover have "sliders_fine three_saved"
    by (rule initial_sliders_fine) (simp_all add: three_saved_frame)
  ultimately have "\<exists>s'. SpringHallUI_load_preset 2 ''B'' three_saved = Result s' \<and>
      current_preset_name s' = ''B''"
    using load_effect [OF three_saved_entry_B _ _ three_saved_frame(3) example_B_fits] by blast
  then have "selected_after (SpringHallUI_load_preset 2 ''B'' three_saved) = Some ''B''"
    by (auto simp add: selected_after_def read_res_def)
  with three_saved_current show ?thesis by simp
qed

lemma value_map_small: "value_map u < 3"
  by (cases u) simp_all

lemma knob_signal_frame:
  "presets (unit_knob_valueChanged u n v s) = presets s"
  "length (heap (unit_knob_valueChanged u n v s)) = length (heap s)"
  "3 \<le> a \<Longrightarrow> heap_get (heap (unit_knob_valueChanged u n v s)) a = heap_get (heap s) a"
  using value_map_small [of u]
  by (simp_all add: unit_knob_valueChanged_def heap_get_def)

lemma knob_set_frame:
  "presets (unit_knob_setValue u n v s) = presets s"
  "length (heap (unit_knob_setValue u n v s)) = length (heap s)"
  "3 \<le> a \<Longrightarrow> heap_get (heap (unit_knob_setValue u n v s)) a = heap_get (heap s) a"
  by (simp_all add: unit_knob_setValue_def Let_def knob_signal_frame split: option.splits)

lemma knob_event_frame:
  "presets (apply_knob_event e s) = presets s"
  "length (heap (apply_knob_event e s)) = length (heap s)"
  "3 \<le> a \<Longrightarrow> heap_get (heap (apply_knob_event e s)) a = heap_get (heap s) a"
  by (cases e; simp add: knob_signal_frame knob_set_frame)+

lemma knob_events_frame:
  "presets (knob_events evs s) = presets s \<and>
   (\<forall>a. 3 \<le> a \<longrightarrow> heap_get (heap (knob_events evs s)) a = heap_get (heap s) a)"
  by (induction evs arbitrary: s) (simp_all add: knob_events_def knob_event_frame)

lemma saved_modulation_after_save:
  assumes "strip typed \<noteq> []" and "strip typed \<notin> set (map fst (presets s))"
    and "3 \<le> length (heap s)"
  shows "saved_modulation (knob_events evs (snd (SpringHallUI_save_preset (Accepted typed) ok s))) (strip typed) =
           Some [(''mod'', live_map Mod s), (''bic'', live_map Bic s), (''ech'', live_map Ech s)]"
proof -
  let ?s1 = "snd (SpringHallUI_save_preset (Accepted typed) ok s)"
  let ?n = "length (heap s)"
  have ps: "map_of (presets ?s1) (strip typed) = Some (new_preset s)"
    using save_fresh(2) [OF assms(1,2), of ok] map_of_snoc_new [OF assms(2), of "new_preset s"]
    by simp
  have h: "heap ?s1 = heap s @ [heap_get (heap s) 0, heap_get (heap s) 1, heap_get (heap s) 2]"
    by (rule save_fresh(3) [OF assms(1,2)])
  have cells: "heap_get (heap ?s1) ?n = heap_get (heap s) 0"
    "heap_get (heap ?s1) (?n + 1) = heap_get (heap s) 1"
    "heap_get (heap ?s1) (?n + 2) = heap_get (heap s) 2"
    by (simp_all add: h heap_get_def nth_append)
  have fr: "presets (knob_events evs ?s1) = presets ?s1"
    "\<And>a. 3 \<le> a \<Longrightarrow> heap_get (heap (knob_events evs ?s1)) a = heap_get (heap ?s1) a"
    using knob_events_frame [of evs ?s1] by simp_all
  have "heap_get (heap (knob_events evs ?s1)) ?n = heap_get (heap s) 0"
    "heap_get (heap (knob_events evs ?s1)) (?n + 1) = heap_get (heap s) 1"
    "heap_get (heap (knob_events evs ?s1)) (?n + 2) = heap_get (heap s) 2"
    using assms(3) cells by (simp_all add: fr(2))
  then show ?thesis
    by (simp add: saved_modulation_def fr(1) ps new_preset_def live_map_def)
qed

text \<open>
  Claim C10. A successful save records copies of the three live modulation maps: after
  any sequence of later modulation-knob changes, which update the live maps in place,
  the modulation values read through the saved preset are still the values the live
  maps had when the preset was saved.
\<close>

theorem saved_modulation_is_snapshot:
  assumes "strip typed \<noteq> []" and "strip typed \<notin> set (map fst (presets s))"
    and "3 \<le> length (heap s)"
  shows "saved_modulation (knob_events evs (snd (SpringHallUI_save_preset (Accepted typed) ok s))) (strip typed) =
           Some [(''mod'', live_map Mod s), (''bic'', live_map Bic s), (''ech'', live_map Ech s)]"
  using assms by (rule saved_modulation_after_save)

lemma example_bank_facts:
  "presets example_bank = []" "heap example_bank = initial_heap"
  by (simp_all add: example_bank_def startup_app_def build_app_def)

lemma example_bank_live_after:
  "live_map Bic (knob_events [SetKnob Bic ''Rate'' 30] (snd (SpringHallUI_save_preset (Accepted ''A'') True example_bank)))
     = [(''Rate'', 30), (''Depth'', 0), (''Tone'', 0), (''Mix'', 0)]"
proof -
  let ?s1 = "snd (SpringHallUI_save_preset (Accepted ''A'') True example_bank)"
  have f: "strip ''A'' \<noteq> []" "strip ''A'' \<notin> set (map fst (presets example_bank))"
    by (simp_all add: strip_letters example_bank_facts)
  have h: "heap ?s1 = initial_heap @ [heap_get initial_heap 0, heap_get initial_heap 1, heap_get initial_heap 2]"
    using save_fresh(3) [OF f, of True] by (simp add: example_bank_facts)
  have "unit_knobs ?s1 = unit_knobs example_bank" by (rule save_frame(3))
  then have k: "unit_knobs ?s1 Bic =
      Some [(''Rate'', \<lparr>wvalue = 70, wminimum = 0, wmaximum = 100, signalsBlocked = False\<rparr>)]"
    by (simp add: example_bank_def)
  show ?thesis
    by (simp add: live_map_def knob_events_def unit_knob_setValue_def unit_knob_valueChanged_def h k
        bound_def Let_def initial_heap_def heap_get_def)
qed

theorem saved_modulation_is_snapshot_witness:
  "strip ''A'' \<noteq> [] \<and> strip ''A'' \<notin> set (map fst (presets example_bank)) \<and>
   3 \<le> length (heap example_bank) \<and>
   saved_modulation (knob_events [SetKnob Bic ''Rate'' 30]
       (snd (SpringHallUI_save_preset (Accepted ''A'') True example_bank))) (strip ''A'') =
     Some [(''mod'', live_map Mod example_bank), (''bic'', live_map Bic example_bank),
           (''ech'', live_map Ech example_bank)] \<and>
   live_map Bic example_bank = [(''Rate'', 0), (''Depth'', 0), (''Tone'', 0), (''Mix'', 0)] \<and>
   live_map Bic (knob_events [SetKnob Bic ''Rate'' 30]
       (snd (SpringHallUI_save_preset (Accepted ''A'') True example_bank)))
     = [(''Rate'', 30), (''Depth'', 0), (''Tone'', 0), (''Mix'', 0)]"
proof -
  have h1: "strip ''A'' \<noteq> []" by (simp add: strip_letters)
  have h2: "strip ''A'' \<notin> set (map fst (presets example_bank))"
    by (simp add: example_bank_facts)
  have h3: "3 \<le> length (heap example_bank)"
    by (simp add: example_bank_facts initial_heap_def)
  have l: "live_map Bic example_bank = [(''Rate'', 0), (''Depth'', 0), (''Tone'', 0), (''Mix'', 0)]"
    by (simp add: live_map_def example_bank_facts initial_heap_def heap_get_def)
  from saved_modulation_is_snapshot [OF h1 h2 h3, of "[SetKnob Bic ''Rate'' 30]" True]
  show ?thesis using h1 h2 h3 l example_bank_live_after by blast
qed

section \<open>The name selected by a load once the modulation page exists\<close>

text \<open>
  The loops that refresh the modulation knobs use \<open>name\<close> as their loop variable, so
  after them the method's parameter holds the label of the last knob visited. A load
  then selects that label instead of the preset's name.
\<close>

lemma knob_signal_keeps:
  "knob_labels (unit_knob_valueChanged u n v s) u' = knob_labels s u'"
  "presets (unit_knob_valueChanged u n v s) = presets s"
  by (simp_all add: unit_knob_valueChanged_def knob_labels_def)

lemma knob_set_keeps:
  "knob_labels (unit_knob_setValue u n v s) u' = knob_labels s u'"
  "presets (unit_knob_setValue u n v s) = presets s"
proof -
  show "knob_labels (unit_knob_setValue u n v s) u' = knob_labels s u'"
  proof (cases "unit_knobs s u")
    case None
    then show ?thesis by (simp add: unit_knob_setValue_def)
  next
    case (Some ks)
    show ?thesis
    proof (cases "map_of ks n")
      case None
      with Some show ?thesis by (simp add: unit_knob_setValue_def)
    next
      case (Some w)
      then have "n \<in> set (map fst ks)" by (metis map_of_eq_None_iff option.distinct(1) set_map)
      then have k: "map fst (AList.update n w' ks) = map fst ks" for w'
        by (simp add: update_keys)
      have "knob_labels (s\<lparr>unit_knobs := (unit_knobs s)(u := Some (AList.update n w' ks))\<rparr>) u' = knob_labels s u'" for w'
        using \<open>unit_knobs s u = Some ks\<close> k [of w'] by (simp add: knob_labels_def)
      then show ?thesis
        using Some \<open>unit_knobs s u = Some ks\<close>
        by (simp add: unit_knob_setValue_def Let_def knob_signal_keeps(1))
    qed
  qed
  show "presets (unit_knob_setValue u n v s) = presets s"
    by (simp add: unit_knob_setValue_def Let_def knob_signal_keeps(2) split: option.splits)
qed

lemma set_unit_knobs_keeps:
  "set_unit_knobs u ns s = Result s' \<Longrightarrow>
   knob_labels s' u' = knob_labels s u' \<and> presets s' = presets s"
proof (induction ns arbitrary: s)
  case Nil
  then show ?case by simp
next
  case (Cons nm nms)
  let ?v = "int_of_rat (dict_get (heap_get (heap s) (value_map u)) nm 0)"
  from Cons.prems have "set_unit_knobs u nms (unit_knob_setValue u nm ?v s) = Result s'"
    by (simp add: Let_def split: if_splits)
  from Cons.IH [OF this] show ?case by (simp add: knob_set_keeps)
qed

lemma refresh_unit_knobs_name:
  assumes "refresh_unit_knobs u (name, s) = Result (name', s')"
  shows "name' = rebound s u name \<and> knob_labels s' u' = knob_labels s u' \<and> presets s' = presets s"
proof (cases "unit_knobs s u")
  case None
  with assms show ?thesis by (simp add: refresh_unit_knobs_def rebound_def knob_labels_def)
next
  case (Some ks)
  with assms have r: "set_unit_knobs u (map fst ks) s = Result s'"
    "name' = (if ks = [] then name else fst (last ks))"
    by (auto simp add: refresh_unit_knobs_def and_then_Result_iff)
  from set_unit_knobs_keeps [OF r(1), of u'] r(2) Some show ?thesis
    by (simp add: rebound_def knob_labels_def last_map)
qed

lemma rebound_cong: "knob_labels s' u = knob_labels s u \<Longrightarrow> rebound s' u name = rebound s u name"
  by (simp add: rebound_def)

lemma load_selected_name:
  assumes "map_of (presets s) name = Some data"
    and "SpringHallUI_load_preset fuel name s = Result s'"
  shows "presets s' = presets s \<and>
         current_preset_name s' = rebound s Ech (rebound s Bic (rebound s Mod name))"
proof -
  from assms obtain g r1 r2 r3 where
    g: "set_sliders fuel (pvalues data) (slider_widgets s) (gui s) = Result g"
    and r1: "refresh_unit_knobs Mod
               (name, s\<lparr>gui := g, heap := apply_modulation (modulation data) (heap s)\<rparr>) = Result r1"
    and r2: "refresh_unit_knobs Bic r1 = Result r2"
    and r3: "refresh_unit_knobs Ech r2 = Result r3"
    and s': "s' = select_loaded (position data) r3"
    by (auto simp add: SpringHallUI_load_preset_def and_then_Result_iff
        simp del: set_sliders.simps)
  define s0 where "s0 = s\<lparr>gui := g, heap := apply_modulation (modulation data) (heap s)\<rparr>"
  have k0: "\<And>u. knob_labels s0 u = knob_labels s u" "presets s0 = presets s"
    by (simp_all add: s0_def knob_labels_def)
  obtain n1 s1 where p1: "r1 = (n1, s1)" by (cases r1)
  obtain n2 s2 where p2: "r2 = (n2, s2)" by (cases r2)
  obtain n3 s3 where p3: "r3 = (n3, s3)" by (cases r3)
  have q1: "refresh_unit_knobs Mod (name, s0) = Result (n1, s1)" using r1 p1 by (simp add: s0_def)
  have q2: "refresh_unit_knobs Bic (n1, s1) = Result (n2, s2)" using r2 p1 p2 by simp
  have q3: "refresh_unit_knobs Ech (n2, s2) = Result (n3, s3)" using r3 p2 p3 by simp
  have f1: "n1 = rebound s Mod name" "presets s1 = presets s"
    using refresh_unit_knobs_name [OF q1, of Mod] k0(2) rebound_cong [OF k0(1) [of Mod]]
    by simp_all
  have l1: "knob_labels s1 u = knob_labels s u" for u
    using refresh_unit_knobs_name [OF q1, of u] k0(1) [of u] by simp
  have f2: "n2 = rebound s Bic n1" "presets s2 = presets s"
    using refresh_unit_knobs_name [OF q2, of Bic] f1(2) rebound_cong [OF l1 [of Bic]]
    by simp_all
  have l2: "knob_labels s2 u = knob_labels s u" for u
    using refresh_unit_knobs_name [OF q2, of u] l1 [of u] by simp
  have f3: "n3 = rebound s Ech n2" "presets s3 = presets s"
    using refresh_unit_knobs_name [OF q3, of Ech] f2(2) rebound_cong [OF l2 [of Ech]]
    by simp_all
  show ?thesis using s' p3 f1 f2 f3 by (simp add: select_loaded_def)
qed

lemma page_opened_facts:
  "presets page_opened = presets restored_app"
  "slider_widgets page_opened = slider_widgets restored_app"
  "gui page_opened = gui restored_app"
  "heap page_opened = heap restored_app"
  "knob_labels page_opened Mod = None"
  "knob_labels page_opened Bic = Some [''Rate'', ''Mix'']"
  "knob_labels page_opened Ech = None"
  by (simp_all add: page_opened_def knob_labels_def)

lemma page_opened_load_returns:
  "\<exists>s'. SpringHallUI_load_preset 2 ''S'' page_opened = Result s'"
proof -
  have fine: "sliders_fine page_opened"
    by (rule initial_sliders_fine) (simp_all add: page_opened_facts restored_facts)
  have "values_fit stored_S page_opened"
    using restored_targets(3) by (simp add: values_fit_def page_opened_facts)
  then have fit: "\<forall>n\<in>set (slider_widgets page_opened).
      c_int (int_of_rat (dict_get (pvalues stored_S) n 0 * 10))"
    by (simp add: values_fit_def slider_target_def list_all_iff)
  from set_sliders_effect [OF sliders_fineD [OF fine] fit, of 0] obtain g where
    g: "set_sliders 2 (pvalues stored_S) (slider_widgets page_opened) (gui page_opened) = Result g"
    by (auto simp add: numeral_2_eq_2)
  have m: "map_of (presets page_opened) ''S'' = Some stored_S"
    by (simp add: page_opened_facts restored_facts)
  have h: "apply_modulation (modulation stored_S) (heap page_opened) =
      [[(''Speed'', 0), (''Shape'', 0), (''Phase'', 0), (''Spread'', 0)],
       [(''Rate'', 30), (''Depth'', 0), (''Tone'', 0), (''Mix'', 0)],
       [(''Time'', 0), (''FB'', 0), (''Tone'', 0), (''Mod'', 0), (''Mix'', 0), (''Level'', 0)],
       [], [(''Rate'', 30)], []]"
    by (simp add: page_opened_facts restored_facts initial_heap_def apply_modulation_def Let_def
        sub_map_def stored_S_def heap_get_def copy_into_def)
  have k: "unit_knobs page_opened =
      (\<lambda>u. None)(Bic := Some [(''Rate'', \<lparr>wvalue = 50, wminimum = 0, wmaximum = 100, signalsBlocked = False\<rparr>),
                     (''Mix'', \<lparr>wvalue = 50, wminimum = 0, wmaximum = 100, signalsBlocked = False\<rparr>)])"
    by (simp add: page_opened_def)
  show ?thesis
    using m g
    by (simp add: SpringHallUI_load_preset_def h k refresh_unit_knobs_def unit_knob_setValue_def
        unit_knob_valueChanged_def heap_get_def dict_get_def bound_def c_int_def Let_def
        int_of_rat_def del: set_sliders.simps)
qed

lemma load_after_page_opened_selects_knob_label:
  "selected_after (SpringHallUI_load_preset 2 ''S'' page_opened) = Some ''Mix''"
proof -
  from page_opened_load_returns obtain s' where
    s': "SpringHallUI_load_preset 2 ''S'' page_opened = Result s'" by blast
  have m: "map_of (presets page_opened) ''S'' = Some stored_S"
    by (simp add: page_opened_facts restored_facts)
  from load_selected_name [OF m s'] have "current_preset_name s' = ''Mix''"
    by (simp add: rebound_def page_opened_facts)
  with s' show ?thesis by (simp add: selected_after_def read_res_def)
qed

section \<open>Properties of the blend surface in exact arithmetic\<close>

text \<open>
  With real numbers in place of floats, a point outside the circle is mapped onto the
  circle, both cursors stay inside or on it under every pointer event, and the four
  blend weights are the bilinear products, which sum to 1.
\<close>

lemma scaled_squares: "(a * k)\<^sup>2 + (b * k)\<^sup>2 = (a\<^sup>2 + b\<^sup>2) * k\<^sup>2" for a b k :: real
  by (simp add: power_mult_distrib distrib_right)

lemma cancel_square: "x \<noteq> 0 \<Longrightarrow> x\<^sup>2 * (r\<^sup>2 / x\<^sup>2) = r\<^sup>2" for x r :: real
  by simp

lemma clamp_outside:
  assumes "0 \<le> radius" and "distance p c > radius"
  shows "distance (clamp_point_to_circle p c radius) c = radius"
proof -
  let ?dx = "px p - px c" and ?dy = "py p - py c"
  let ?d = "sqrt (?dx\<^sup>2 + ?dy\<^sup>2)"
  have d1: "?d > radius" using assms(2) by (simp add: distance_def)
  have d2: "?d > 0" using assms(1) d1 by (rule le_less_trans)
  have dn: "?d \<noteq> 0" using d2 by (metis less_irrefl)
  have sq: "?d\<^sup>2 = ?dx\<^sup>2 + ?dy\<^sup>2" by simp
  have "(?dx * (radius / ?d))\<^sup>2 + (?dy * (radius / ?d))\<^sup>2 = (?dx\<^sup>2 + ?dy\<^sup>2) * (radius / ?d)\<^sup>2"
    by (rule scaled_squares)
  also have "\<dots> = ?d\<^sup>2 * (radius\<^sup>2 / ?d\<^sup>2)" by (simp only: sq power_divide)
  also have "\<dots> = radius\<^sup>2" by (rule cancel_square [OF dn])
  finally have "sqrt ((?dx * (radius / ?d))\<^sup>2 + (?dy * (radius / ?d))\<^sup>2) = radius"
    using assms(1) by simp
  then show ?thesis using d1 by (simp add: clamp_point_to_circle_def distance_def Let_def)
qed

lemma clamp_inside:
  "distance p c \<le> radius \<Longrightarrow> clamp_point_to_circle p c radius = p"
  by (simp add: clamp_point_to_circle_def distance_def Let_def)

lemma clamp_in_circle: "in_circle (clamp_point_to_circle p surface_center 200)"
proof (cases "distance p surface_center > 200")
  case True
  then show ?thesis using clamp_outside [of 200 p surface_center] by (simp add: in_circle_def)
next
  case False
  then show ?thesis by (simp add: clamp_inside in_circle_def)
qed

lemma pointer_step_in_circle:
  assumes "in_circle (cursor_pos s)" and "in_circle (secondary_pos s)"
  shows "in_circle (cursor_pos (pointer_step e s)) \<and> in_circle (secondary_pos (pointer_step e s))"
proof (cases e)
  case (Press p)
  then show ?thesis using assms by (simp add: mousePressEvent_def)
next
  case (Move p)
  then show ?thesis using assms by (simp add: mouseMoveEvent_def Let_def clamp_in_circle)
next
  case Release
  then show ?thesis using assms by (simp add: mouseReleaseEvent_def)
next
  case Reset
  then show ?thesis
    by (simp add: reset_positions_def in_circle_def distance_def surface_center_def)
qed

lemma calculate_blend_exact:
  "calculate_blend s =
     \<lparr>wA = (1 - py (cursor_pos s) / height) * (1 - px (cursor_pos s) / width),
      wB = (1 - py (cursor_pos s) / height) * (px (cursor_pos s) / width),
      wC = (py (cursor_pos s) / height) * (1 - px (cursor_pos s) / width),
      wD = (py (cursor_pos s) / height) * (px (cursor_pos s) / width)\<rparr>"
proof -
  let ?x = "px (cursor_pos s) / width" and ?y = "py (cursor_pos s) / height"
  have "(1 - ?x) * (1 - ?y) + ?x * (1 - ?y) + (1 - ?x) * ?y + ?x * ?y = 1"
    by (simp add: algebra_simps)
  then show ?thesis by (simp add: calculate_blend_def Let_def mult.commute)
qed

lemma calculate_blend_sum:
  "wA (calculate_blend s) + wB (calculate_blend s) + wC (calculate_blend s) + wD (calculate_blend s) = 1"
  by (simp add: calculate_blend_exact algebra_simps)

lemma calculate_blend_center:
  "cursor_pos s = surface_center \<Longrightarrow>
   calculate_blend s = \<lparr>wA = 1 / 4, wB = 1 / 4, wC = 1 / 4, wD = 1 / 4\<rparr>"
  by (simp add: calculate_blend_exact surface_center_def width_def height_def)

end

